theory Spec2Isabelle
  imports Main "HOL-Library.Sublist"
begin

section \<open>Application acquisition (lib/basedriver/helpers.js)\<close>

text \<open>
  A shallow embedding of \<^verbatim>\<open>configureApp\<close>, \<^verbatim>\<open>unzipApp\<close>, \<^verbatim>\<open>downloadApp\<close> and their
  helpers. The collaborators the module imports (HTTP client, filesystem, zip, temporary
  directories, the file name sanitizer, \<^verbatim>\<open>url.parse\<close>) are parameters of the model,
  collected in the record \<open>env\<close>; everything the module itself computes is a definition.
\<close>

subsection \<open>JavaScript values\<close>

text \<open>The \<^verbatim>\<open>app\<close> argument: \<^verbatim>\<open>_.isString\<close> holds of \<open>Str\<close> only.\<close>

datatype js_value = Str string | Undefined | Null | Num int | Boolean bool | Obj

fun isString :: "js_value \<Rightarrow> bool" where
  "isString (Str s) = True"
| "isString v = False"

text \<open>
  The \<^verbatim>\<open>supportedAppExtensions\<close> argument is \<^verbatim>\<open>Array<string>|string\<close>; a value that
  is not an array is wrapped into a one-element array (lines 102-104 and 294-296).
\<close>

datatype ext_arg = ExtArray "string list" | ExtSingle string

fun toExtArray :: "ext_arg \<Rightarrow> string list" where
  "toExtArray (ExtArray xs) = xs"
| "toExtArray (ExtSingle x) = [x]"

text \<open>A \<^verbatim>\<open>string|null\<close> variable is truthy when it is a non-empty string.\<close>

fun truthy :: "string option \<Rightarrow> bool" where
  "truthy None = False"
| "truthy (Some s) = (s \<noteq> [])"

text \<open>
  \<^verbatim>\<open>new Date(s)\<close> is a Date object whose time value is a whole number of milliseconds,
  or NaN (an invalid date). Every comparison with NaN is false.
\<close>

datatype js_date = ValidDate int | InvalidDate

fun time_le :: "js_date \<Rightarrow> js_date \<Rightarrow> bool" where
  "time_le (ValidDate a) (ValidDate b) = (a \<le> b)"
| "time_le a b = False"

subsection \<open>The path module (POSIX)\<close>

text \<open>\<^verbatim>\<open>String.prototype.split\<close> with a one-character separator.\<close>

fun split_on :: "char \<Rightarrow> string \<Rightarrow> string list" where
  "split_on c [] = [[]]"
| "split_on c (x # xs) =
     (if x = c then [] # split_on c xs
      else (case split_on c xs of s # ss \<Rightarrow> (x # s) # ss | [] \<Rightarrow> [[x]]))"

definition path_sep :: char where
  "path_sep = CHR ''/''"

definition path_isAbsolute :: "string \<Rightarrow> bool" where
  "path_isAbsolute p = (case p of [] \<Rightarrow> False | c # _ \<Rightarrow> c = path_sep)"

text \<open>
  Segment normalisation of an absolute path: empty and \<^verbatim>\<open>.\<close> segments are dropped,
  \<^verbatim>\<open>..\<close> removes the segment before it and is itself dropped at the root.
  The accumulator holds the segments kept so far, last one first.
\<close>

fun norm_segs :: "string list \<Rightarrow> string list \<Rightarrow> string list" where
  "norm_segs acc [] = rev acc"
| "norm_segs acc (s # ss) =
     (if s = [] \<or> s = ''.'' then norm_segs acc ss
      else if s = ''..'' then norm_segs (tl acc) ss
      else norm_segs (s # acc) ss)"

fun join_segs :: "string list \<Rightarrow> string" where
  "join_segs [] = []"
| "join_segs [s] = s"
| "join_segs (s # t # ss) = s @ path_sep # join_segs (t # ss)"

text \<open>
  \<^verbatim>\<open>path.resolve(base, p)\<close> for an absolute \<open>base\<close> (the working directory, or a
  directory handed out by \<^verbatim>\<open>tempDir\<close>): \<open>p\<close> alone when it is absolute, otherwise
  \<open>p\<close> below \<open>base\<close>; an empty \<open>p\<close> is skipped. The result starts with the separator
  and has no trailing one.
\<close>

definition path_resolve :: "string \<Rightarrow> string \<Rightarrow> string" where
  "path_resolve base p =
     path_sep # join_segs (norm_segs []
       (split_on path_sep (if path_isAbsolute p then p else base @ path_sep # p)))"

text \<open>
  The last component of a path: trailing separators are skipped, then everything after
  the last separator is taken (\<^verbatim>\<open>path.basename\<close>).
\<close>

definition path_basename :: "string \<Rightarrow> string" where
  "path_basename p =
     rev (takeWhile (\<lambda>c. c \<noteq> path_sep) (dropWhile (\<lambda>c. c = path_sep) (rev p)))"

text \<open>
  \<^verbatim>\<open>path.extname\<close>: from the last dot of the last component to its end; empty when
  there is no dot, when the last dot is the first character of the component, or when
  the component is \<^verbatim>\<open>..\<close>.
\<close>

definition ext_of :: "string \<Rightarrow> string" where
  "ext_of b =
     (let after = rev (takeWhile (\<lambda>c. c \<noteq> CHR ''.'') (rev b));
          dot = length b - length after - 1
      in if CHR ''.'' \<notin> set b \<or> dot = 0 \<or> b = ''..'' then []
         else drop dot b)"

definition path_extname :: "string \<Rightarrow> string" where
  "path_extname p = ext_of (path_basename p)"

subsection \<open>Regular expressions of the module\<close>

definition is_word_char :: "char \<Rightarrow> bool" where
  "is_word_char c =
     (let n = of_char c :: nat
      in (48 \<le> n \<and> n \<le> 57) \<or> (65 \<le> n \<and> n \<le> 90) \<or> (97 \<le> n \<and> n \<le> 122) \<or> n = 95)"

text \<open>\<^verbatim>\<open>\b\<close> between two neighbouring positions; \<open>None\<close> is the edge of the input.\<close>

definition word_boundary :: "char option \<Rightarrow> char option \<Rightarrow> bool" where
  "word_boundary l r =
     ((case l of None \<Rightarrow> False | Some c \<Rightarrow> is_word_char c)
      \<noteq> (case r of None \<Rightarrow> False | Some c \<Rightarrow> is_word_char c))"

definition head_opt :: "string \<Rightarrow> char option" where
  "head_opt s = (case s of [] \<Rightarrow> None | c # _ \<Rightarrow> Some c)"

text \<open>
  \<^verbatim>\<open>new RegExp(`\\b${_.escapeRegExp(m)}\\b`).test(s)\<close> for a non-empty literal \<open>m\<close>:
  \<open>m\<close> occurs in \<open>s\<close> with a word boundary before its first and after its last
  character. \<open>prev\<close> is the character before the current position.
\<close>

fun bounded_match_from :: "char option \<Rightarrow> string \<Rightarrow> string \<Rightarrow> bool" where
  "bounded_match_from prev m [] = False"
| "bounded_match_from prev m (c # cs) =
     ((prefix m (c # cs)
        \<and> word_boundary prev (head_opt m)
        \<and> word_boundary (Some (last m)) (head_opt (drop (length m) (c # cs))))
      \<or> bounded_match_from (Some c) m cs)"

definition bounded_match :: "string \<Rightarrow> string \<Rightarrow> bool" where
  "bounded_match m s = bounded_match_from None m s"

text \<open>The \<^verbatim>\<open>i\<close> flag: ASCII letters compare without case, no other character folds.\<close>

definition lower_char :: "char \<Rightarrow> char" where
  "lower_char c =
     (let n = of_char c :: nat in if 65 \<le> n \<and> n \<le> 90 then char_of (n + 32) else c)"

definition prefix_ci :: "string \<Rightarrow> string \<Rightarrow> bool" where
  "prefix_ci m s = prefix (map lower_char m) (map lower_char s)"

text \<open>\<^verbatim>\<open>/^attachment/i.test(s)\<close>\<close>

definition is_attachment :: "string \<Rightarrow> bool" where
  "is_attachment s = prefix_ci ''attachment'' s"

text \<open>
  \<^verbatim>\<open>/filename="([^"]+)/i.exec(s)\<close>: the leftmost position where \<^verbatim>\<open>filename="\<close> is
  followed by at least one character other than the double quote; the group is the
  longest run of such characters.
\<close>

definition filename_key :: string where
  "filename_key = ''filename='' @ [CHR 0x22]"

fun filename_match :: "string \<Rightarrow> string option" where
  "filename_match [] = None"
| "filename_match (c # cs) =
     (let grp = takeWhile (\<lambda>x. x \<noteq> CHR 0x22) (drop (length filename_key) (c # cs))
      in if prefix_ci filename_key (c # cs) \<and> grp \<noteq> [] then Some grp
         else filename_match cs)"

subsection \<open>Collaborators and the state of the process\<close>

datatype node = File string | Dir

text \<open>
  What the zip collaborator makes of a file's content: \<^verbatim>\<open>assertValidZip\<close> rejects it,
  \<^verbatim>\<open>extractAllTo\<close> fails, or the archive is extracted; then the list is the extracted
  tree as \<^verbatim>\<open>fs.glob('**')\<close> enumerates it, relative paths in enumeration order.
\<close>

datatype zip_outcome = InvalidZip | ExtractFails | Extracted "(string \<times> node) list"

text \<open>A GET request fails in transport, or answers with status, status message and body.\<close>

datatype http_response = TransportError string | Response nat string string

datatype request = HEAD string | GET string

record parsed_url =
  protocol :: "string option"
  pathname :: "string option"
  href :: string

type_synonym headers = "string \<rightharpoonup> string"

record env =
  url_parse :: "string \<Rightarrow> parsed_url"
  head_request :: "string \<Rightarrow> headers option"
  get_request :: "string \<Rightarrow> http_response"
  parse_date :: "string \<Rightarrow> js_date"
  decodeURIComponent :: "string \<Rightarrow> string option"
  sanitize :: "string \<Rightarrow> string"
  digest :: "string \<Rightarrow> string"
  zip_read :: "string \<Rightarrow> zip_outcome"
  cwd :: string
  tmp_dir_name :: "nat \<Rightarrow> string"

text \<open>The value stored in \<^verbatim>\<open>APPLICATIONS_CACHE\<close> (lines 237-241).\<close>

record cache_entry =
  hash :: "string option"
  lastModified :: "js_date option"
  fullPath :: string

text \<open>
  \<open>cache\<close> is the mapping held by \<^verbatim>\<open>APPLICATIONS_CACHE\<close> (no \<^verbatim>\<open>max\<close> is configured,
  so \<^verbatim>\<open>set\<close> evicts nothing; expiry by age happens between calls and is not part of
  a call). \<open>files\<close> is the filesystem, keyed by absolute path. \<open>tmp_counter\<close> counts
  the directories \<^verbatim>\<open>tempDir\<close> has handed out. \<open>net_log\<close> records every request sent,
  \<open>extractions\<close> every archive handed to \<^verbatim>\<open>zip.extractAllTo\<close>.
\<close>

record world =
  cache :: "string \<rightharpoonup> cache_entry"
  files :: "string \<rightharpoonup> node"
  tmp_counter :: nat
  net_log :: "request list"
  extractions :: "string list"

text \<open>What a rejected download reports (lines 254-259).\<close>

datatype cause = Transport string | HttpStatus nat string

text \<open>
  One constructor for each \<^verbatim>\<open>throw\<close> of the module and each failure of a collaborator,
  with the values the message is built from.
\<close>

datatype error =
    UnsupportedProtocol string string
  | NotFound string
  | DownloadFailure string cause
  | InvalidArchive string
  | ExtractFailure string
  | NoBundleFound "string list"
  | UnsupportedExtension string "string list"
  | HashFailure string
  | URIError string

subsection \<open>Filesystem primitives\<close>

text \<open>The operating system resolves a relative path against the working directory.\<close>

definition fs_key :: "env \<Rightarrow> string \<Rightarrow> string" where
  "fs_key env p = path_resolve (cwd env) p"

text \<open>\<open>q\<close> is \<open>p\<close> or lies below \<open>p\<close>.\<close>

definition under :: "string \<Rightarrow> string \<Rightarrow> bool" where
  "under p q = (q = p \<or> prefix (p @ [path_sep]) q)"

text \<open>\<^verbatim>\<open>fs.exists\<close>; the empty path names nothing.\<close>

definition fs_exists :: "env \<Rightarrow> world \<Rightarrow> string \<Rightarrow> bool" where
  "fs_exists env w p = (p \<noteq> [] \<and> files w (fs_key env p) \<noteq> None)"

text \<open>\<^verbatim>\<open>fs.rimraf\<close>: the path and everything below it are gone.\<close>

definition fs_rimraf :: "env \<Rightarrow> string \<Rightarrow> world \<Rightarrow> world" where
  "fs_rimraf env p w =
     w\<lparr>files := (\<lambda>q. if under (fs_key env p) q then None else files w q)\<rparr>"

text \<open>\<^verbatim>\<open>fs.hash\<close>: the digest of a regular file's content.\<close>

definition fs_hash :: "env \<Rightarrow> world \<Rightarrow> string \<Rightarrow> error + string" where
  "fs_hash env w p =
     (case files w (fs_key env p) of
        Some (File c) \<Rightarrow> Inr (digest env c)
      | _ \<Rightarrow> Inl (HashFailure p))"

text \<open>
  \<^verbatim>\<open>fs.mv(src, dst, {mkdirp: true})\<close>: the tree at \<open>src\<close> is found at \<open>dst\<close>
  afterwards and no longer at \<open>src\<close>; missing parent directories of \<open>dst\<close> are created.
\<close>

definition fs_mv :: "env \<Rightarrow> string \<Rightarrow> string \<Rightarrow> world \<Rightarrow> world" where
  "fs_mv env src dst w =
     (let s = fs_key env src; d = fs_key env dst
      in w\<lparr>files := (\<lambda>q.
           if under d q then files w (s @ drop (length d) q)
           else if under s q then None
           else if files w q = None \<and> q \<noteq> [] \<and> prefix (q @ [path_sep]) d then Some Dir
           else files w q)\<rparr>)"

text \<open>
  \<^verbatim>\<open>tempDir.openDir()\<close> creates a directory of its own and returns its path;
  \<^verbatim>\<open>tempDir.path({prefix, suffix: ''})\<close> creates such a directory and returns the path
  of the entry named \<open>prefix\<close> in it.
\<close>

definition tempDir_openDir :: "env \<Rightarrow> world \<Rightarrow> string \<times> world" where
  "tempDir_openDir env w =
     (let d = tmp_dir_name env (tmp_counter w)
      in (d, w\<lparr>files := (files w)(fs_key env d \<mapsto> Dir), tmp_counter := Suc (tmp_counter w)\<rparr>))"

definition tempDir_path :: "env \<Rightarrow> string \<Rightarrow> world \<Rightarrow> string \<times> world" where
  "tempDir_path env pfx w =
     (case tempDir_openDir env w of (d, w') \<Rightarrow> (path_resolve d pfx, w'))"

text \<open>What the zip collaborator makes of the file at a path.\<close>

definition zip_at :: "env \<Rightarrow> world \<Rightarrow> string \<Rightarrow> zip_outcome" where
  "zip_at env w p =
     (case files w (fs_key env p) of
        Some (File c) \<Rightarrow> zip_read env c
      | _ \<Rightarrow> InvalidZip)"

definition log_extraction :: "string \<Rightarrow> world \<Rightarrow> world" where
  "log_extraction zipPath w = w\<lparr>extractions := extractions w @ [zipPath]\<rparr>"

text \<open>\<^verbatim>\<open>zip.extractAllTo(zipPath, dir)\<close>: every entry is written below \<open>dir\<close>.\<close>

definition extract_into :: "env \<Rightarrow> string \<Rightarrow> (string \<times> node) list \<Rightarrow> world \<Rightarrow> world" where
  "extract_into env dir entries w =
     w\<lparr>files := files w ++
          map_of (map (\<lambda>(e, n). (path_resolve (fs_key env dir) e, n)) (rev entries))\<rparr>"

subsection \<open>The cache\<close>

text \<open>
  \<^verbatim>\<open>APPLICATIONS_CACHE.del(key)\<close> runs the \<^verbatim>\<open>dispose\<close> handler of lines 25-32 on the
  removed entry: the cached artifact is deleted when it still exists.
\<close>

definition cache_del :: "env \<Rightarrow> string \<Rightarrow> world \<Rightarrow> world" where
  "cache_del env k w =
     (case cache w k of
        None \<Rightarrow> w
      | Some e \<Rightarrow>
          (let w' = w\<lparr>cache := (cache w)(k := None)\<rparr>
           in if fs_exists env w' (fullPath e) then fs_rimraf env (fullPath e) w' else w'))"

text \<open>\<^verbatim>\<open>APPLICATIONS_CACHE.set(key, value)\<close>; \<^verbatim>\<open>noDisposeOnSet\<close> is on.\<close>

definition cache_set :: "string \<Rightarrow> cache_entry \<Rightarrow> world \<Rightarrow> world" where
  "cache_set k e w = w\<lparr>cache := (cache w)(k \<mapsto> e)\<rparr>"

subsection \<open>Constants of the module\<close>

definition ZIP_EXTS :: "string list" where
  "ZIP_EXTS = [''.zip'', ''.ipa'']"

definition ZIP_MIME_TYPES :: "string list" where
  "ZIP_MIME_TYPES = [''application/zip'', ''application/x-zip-compressed'', ''multipart/x-zip'']"

definition DEFAULT_BASENAME :: string where
  "DEFAULT_BASENAME = ''appium-app''"

subsection \<open>retrieveHeaders, getCachedApplicationPath, verifyAppExtension\<close>

text \<open>Lines 59-72: a failed HEAD request is logged and gives the empty header object.\<close>

definition retrieveHeaders :: "env \<Rightarrow> string \<Rightarrow> world \<Rightarrow> headers \<times> world" where
  "retrieveHeaders env link w =
     (case head_request env link of
        Some hs \<Rightarrow> (hs, w\<lparr>net_log := net_log w @ [HEAD link]\<rparr>)
      | None \<Rightarrow> (Map.empty, w\<lparr>net_log := net_log w @ [HEAD link]\<rparr>))"

text \<open>Lines 74-86.\<close>

definition getCachedApplicationPath :: "world \<Rightarrow> string \<Rightarrow> js_date option \<Rightarrow> string option" where
  "getCachedApplicationPath w link currentModified =
     (case cache w link of
        None \<Rightarrow> None
      | Some e \<Rightarrow>
          (case currentModified of
             None \<Rightarrow> None
           | Some cm \<Rightarrow>
               (case lastModified e of
                  None \<Rightarrow> None
                | Some lm \<Rightarrow> if time_le cm lm then Some (fullPath e) else None)))"

text \<open>Lines 88-95.\<close>

definition verifyAppExtension :: "string \<Rightarrow> string list \<Rightarrow> error + string" where
  "verifyAppExtension app supportedAppExtensions =
     (if path_extname app \<in> set supportedAppExtensions then Inr app
      else Inl (UnsupportedExtension app supportedAppExtensions))"

subsection \<open>Destination file name of a download (lines 132-176)\<close>

text \<open>
  The pair is the state of the variables \<^verbatim>\<open>fileName\<close> and \<^verbatim>\<open>shouldUnzipApp\<close>; the four
  functions are the four statements that assign them, in the order of the source.
\<close>

type_synonym name_state = "string option \<times> bool"

text \<open>Lines 139-142.\<close>

definition name_from_basename :: "string \<Rightarrow> name_state" where
  "name_from_basename basename =
     (if path_extname basename \<in> set ZIP_EXTS then (Some basename, True) else (None, False))"

text \<open>Lines 143-153.\<close>

definition name_from_content_type :: "headers \<Rightarrow> name_state \<Rightarrow> name_state" where
  "name_from_content_type hs st =
     (case hs ''content-type'' of
        None \<Rightarrow> st
      | Some ct \<Rightarrow>
          if ct \<noteq> [] \<and> list_ex (\<lambda>mimeType. bounded_match mimeType ct) ZIP_MIME_TYPES
          then ((if truthy (fst st) then fst st else Some (DEFAULT_BASENAME @ ''.zip'')), True)
          else st)"

text \<open>Lines 154-163.\<close>

definition name_from_content_disposition :: "env \<Rightarrow> headers \<Rightarrow> name_state \<Rightarrow> name_state" where
  "name_from_content_disposition env hs st =
     (case hs ''content-disposition'' of
        None \<Rightarrow> st
      | Some cd \<Rightarrow>
          if cd \<noteq> [] \<and> is_attachment cd then
            (case filename_match cd of
               None \<Rightarrow> st
             | Some m \<Rightarrow>
                 (let fileName = sanitize env m
                  in (Some fileName, snd st \<or> path_extname fileName \<in> set ZIP_EXTS)))
          else st)"

text \<open>\<^verbatim>\<open>_.first\<close> of an empty array is \<^verbatim>\<open>undefined\<close>, which the template prints.\<close>

definition first_ext :: "string list \<Rightarrow> string" where
  "first_ext exts = (case exts of [] \<Rightarrow> ''undefined'' | e # _ \<Rightarrow> e)"

text \<open>Lines 164-176.\<close>

definition name_fallback :: "string \<Rightarrow> string list \<Rightarrow> name_state \<Rightarrow> name_state" where
  "name_fallback basename supportedAppExtensions st =
     (if truthy (fst st) then st
      else
        (let extname = path_extname basename;
             resultingName =
               (if basename \<noteq> [] then take (length basename - length extname) basename
                else DEFAULT_BASENAME);
             resultingExt =
               (if extname \<in> set supportedAppExtensions then extname
                else first_ext supportedAppExtensions)
         in (Some (resultingName @ resultingExt), snd st)))"

definition deriveFileName :: "env \<Rightarrow> headers \<Rightarrow> string \<Rightarrow> string list \<Rightarrow> name_state" where
  "deriveFileName env hs basename supportedAppExtensions =
     name_fallback basename supportedAppExtensions
       (name_from_content_disposition env hs
         (name_from_content_type hs
           (name_from_basename basename)))"

subsection \<open>downloadApp (lines 247-276)\<close>

text \<open>
  \<^verbatim>\<open>createWriteStream(targetPath)\<close> creates the file and the response body is piped
  into it, also when the status is rejected.
\<close>

definition write_file :: "env \<Rightarrow> string \<Rightarrow> string \<Rightarrow> world \<Rightarrow> world" where
  "write_file env p body w = w\<lparr>files := (files w)(fs_key env p \<mapsto> File body)\<rparr>"

definition downloadApp :: "env \<Rightarrow> string \<Rightarrow> string \<Rightarrow> world \<Rightarrow> (error + string) \<times> world" where
  "downloadApp env app targetPath w =
     (let link = href (url_parse env app);
          w1 = w\<lparr>net_log := net_log w @ [GET link]\<rparr>
      in case get_request env link of
           TransportError msg \<Rightarrow>
             (Inl (DownloadFailure link (Transport msg)), write_file env targetPath [] w1)
         | Response statusCode statusMessage body \<Rightarrow>
             if statusCode \<ge> 400
             then (Inl (DownloadFailure link (HttpStatus statusCode statusMessage)),
                   write_file env targetPath body w1)
             else (Inr targetPath, write_file env targetPath body w1))"

subsection \<open>unzipApp (lines 291-323)\<close>

text \<open>\<^verbatim>\<open>a.split(path.sep).length\<close>\<close>

definition depth :: "string \<Rightarrow> nat" where
  "depth a = length (split_on path_sep a)"

text \<open>
  Lines 304-307: the filter, then \<^verbatim>\<open>Array.prototype.sort\<close> with the comparator
  \<^verbatim>\<open>depth a - depth b\<close>, a stable sort.
\<close>

definition allBundleItems :: "string list \<Rightarrow> string list \<Rightarrow> string list" where
  "allBundleItems supportedAppExtensions allExtractedItems =
     sort_key depth
       (filter (\<lambda>relativePath. path_extname relativePath \<in> set supportedAppExtensions)
          allExtractedItems)"

definition unzipApp :: "env \<Rightarrow> string \<Rightarrow> string \<Rightarrow> ext_arg \<Rightarrow> world \<Rightarrow> (error + string) \<times> world" where
  "unzipApp env zipPath dstRoot ext_arg w =
     (case zip_at env w zipPath of
        InvalidZip \<Rightarrow> (Inl (InvalidArchive zipPath), w)
      | ExtractFails \<Rightarrow>
          (case tempDir_openDir env w of (tmpRoot, w1) \<Rightarrow>
             (Inl (ExtractFailure zipPath),
              fs_rimraf env tmpRoot (log_extraction zipPath w1)))
      | Extracted entries \<Rightarrow>
          (case tempDir_openDir env w of (tmpRoot, w1) \<Rightarrow>
             (let supportedAppExtensions = toExtArray ext_arg;
                  w2 = extract_into env tmpRoot entries (log_extraction zipPath w1)
              in case allBundleItems supportedAppExtensions (map fst entries) of
                   [] \<Rightarrow> (Inl (NoBundleFound supportedAppExtensions), fs_rimraf env tmpRoot w2)
                 | matchedBundle # _ \<Rightarrow>
                     (let dstPath = path_resolve (fs_key env dstRoot) matchedBundle;
                          w3 = fs_mv env (path_resolve (fs_key env tmpRoot) matchedBundle) dstPath w2
                      in (Inr dstPath, fs_rimraf env tmpRoot w3)))))"

subsection \<open>configureApp (lines 97-245)\<close>

text \<open>The variables of \<^verbatim>\<open>configureApp\<close> that its stages hand on.\<close>

record locals =
  l_app :: string
  l_newApp :: string
  l_shouldUnzipApp :: bool
  l_archiveHash :: "string option"
  l_currentModified :: "js_date option"

text \<open>A stage throws, returns from the function, or falls through to the next stage.\<close>

datatype flow = Throw error | Return string | Continue locals

text \<open>\<^verbatim>\<open>return verifyAppExtension(p, supportedAppExtensions)\<close>\<close>

definition return_verified :: "string \<Rightarrow> string list \<Rightarrow> flow" where
  "return_verified p supportedAppExtensions =
     (case verifyAppExtension p supportedAppExtensions of
        Inl e \<Rightarrow> Throw e
      | Inr q \<Rightarrow> Return q)"

text \<open>\<^verbatim>\<open>['http:', 'https:'].includes(protocol)\<close>\<close>

definition isUrl :: "env \<Rightarrow> string \<Rightarrow> bool" where
  "isUrl env app = (protocol (url_parse env app) \<in> {Some ''http:'', Some ''https:''})"

text \<open>
  Lines 132-181, after the cache was consulted: the destination name is derived, a
  temporary path is allocated and the application is downloaded.
  \<^verbatim>\<open>decodeURIComponent\<close> throws on a malformed escape; applied to \<^verbatim>\<open>null\<close> it gives
  the text \<^verbatim>\<open>null\<close>.
\<close>

definition download_stage ::
  "env \<Rightarrow> string list \<Rightarrow> string \<Rightarrow> headers \<Rightarrow> js_date option \<Rightarrow> world \<Rightarrow> flow \<times> world" where
  "download_stage env supportedAppExtensions app hs currentModified w =
     (let raw = (case pathname (url_parse env app) of None \<Rightarrow> ''null'' | Some p \<Rightarrow> p)
      in case decodeURIComponent env raw of
           None \<Rightarrow> (Throw (URIError raw), w)
         | Some decoded \<Rightarrow>
             (let basename = sanitize env (path_basename decoded);
                  st = deriveFileName env hs basename supportedAppExtensions
              in case tempDir_path env (case fst st of None \<Rightarrow> [] | Some n \<Rightarrow> n) w of
                   (targetPath, w1) \<Rightarrow>
                     (case downloadApp env app targetPath w1 of
                        (Inl e, w2) \<Rightarrow> (Throw e, w2)
                      | (Inr p, w2) \<Rightarrow>
                          (Continue \<lparr>l_app = app, l_newApp = p, l_shouldUnzipApp = snd st,
                             l_archiveHash = None, l_currentModified = currentModified\<rparr>, w2))))"

text \<open>Lines 118-121: the value \<^verbatim>\<open>currentModified\<close> gets from the headers.\<close>

definition currentModified_of :: "env \<Rightarrow> headers \<Rightarrow> js_date option" where
  "currentModified_of env hs =
     (case hs ''last-modified'' of
        None \<Rightarrow> None
      | Some v \<Rightarrow> if v \<noteq> [] then Some (parse_date env v) else None)"

text \<open>Lines 114-194: the remote branch, the local branch and the failure branch.\<close>

definition source_stage :: "env \<Rightarrow> string list \<Rightarrow> string \<Rightarrow> world \<Rightarrow> flow \<times> world" where
  "source_stage env supportedAppExtensions app w =
     (if isUrl env app then
        (case retrieveHeaders env app w of (hs, w1) \<Rightarrow>
           (let currentModified = currentModified_of env hs;
                cachedPath = getCachedApplicationPath w1 app currentModified
            in case cachedPath of
                 None \<Rightarrow> download_stage env supportedAppExtensions app hs currentModified w1
               | Some p \<Rightarrow>
                   if p = [] then
                     download_stage env supportedAppExtensions app hs currentModified w1
                   else if fs_exists env w1 p then
                     (return_verified p supportedAppExtensions, w1)
                   else
                     download_stage env supportedAppExtensions app hs currentModified
                       (cache_del env app w1)))
      else if fs_exists env w app then
        (Continue \<lparr>l_app = app, l_newApp = app,
           l_shouldUnzipApp = (path_extname app \<in> set ZIP_EXTS),
           l_archiveHash = None, l_currentModified = None\<rparr>, w)
      else
        (case protocol (url_parse env app) of
           None \<Rightarrow> (Throw (NotFound app), w)
         | Some pr \<Rightarrow>
             if length pr > 2 then (Throw (UnsupportedProtocol pr app), w)
             else (Throw (NotFound app), w)))"

text \<open>
  Lines 211-219: extraction into a directory of its own. The \<^verbatim>\<open>finally\<close> block removes
  the archive when \<^verbatim>\<open>newApp\<close> was reassigned, which only a successful extraction does.
\<close>

definition extract_stage :: "env \<Rightarrow> string list \<Rightarrow> locals \<Rightarrow> string \<Rightarrow> world \<Rightarrow> flow \<times> world" where
  "extract_stage env supportedAppExtensions l archiveHash w =
     (let archivePath = l_newApp l
      in case tempDir_openDir env w of (tmpRoot, w1) \<Rightarrow>
           (case unzipApp env archivePath tmpRoot (ExtArray supportedAppExtensions) w1 of
              (Inl e, w2) \<Rightarrow> (Throw e, w2)
            | (Inr newApp, w2) \<Rightarrow>
                (Continue (l\<lparr>l_newApp := newApp, l_archiveHash := Some archiveHash\<rparr>),
                 if newApp \<noteq> archivePath \<and> archivePath \<noteq> l_app l
                 then fs_rimraf env archivePath w2 else w2)))"

text \<open>Lines 196-225.\<close>

definition unzip_stage :: "env \<Rightarrow> string list \<Rightarrow> locals \<Rightarrow> world \<Rightarrow> flow \<times> world" where
  "unzip_stage env supportedAppExtensions l w =
     (if l_shouldUnzipApp l then
        (let archivePath = l_newApp l
         in case fs_hash env w archivePath of
              Inl e \<Rightarrow> (Throw e, w)
            | Inr archiveHash \<Rightarrow>
                (case cache w (l_app l) of
                   None \<Rightarrow> extract_stage env supportedAppExtensions l archiveHash w
                 | Some e \<Rightarrow>
                     if hash e = Some archiveHash then
                       (if fs_exists env w (fullPath e) then
                          (return_verified (fullPath e) supportedAppExtensions,
                           if archivePath \<noteq> l_app l then fs_rimraf env archivePath w else w)
                        else extract_stage env supportedAppExtensions l archiveHash
                               (cache_del env (l_app l) w))
                     else extract_stage env supportedAppExtensions l archiveHash w))
      else if \<not> path_isAbsolute (l_newApp l) then
        (let newApp = path_resolve (cwd env) (l_newApp l)
         in (Continue (l\<lparr>l_newApp := newApp, l_app := newApp\<rparr>), w))
      else (Continue l, w))"

text \<open>Lines 227-243.\<close>

definition cache_stage :: "env \<Rightarrow> string list \<Rightarrow> locals \<Rightarrow> world \<Rightarrow> (error + string) \<times> world" where
  "cache_stage env supportedAppExtensions l w =
     (case verifyAppExtension (l_newApp l) supportedAppExtensions of
        Inl e \<Rightarrow> (Inl e, w)
      | Inr _ \<Rightarrow>
          if l_app l \<noteq> l_newApp l \<and> (truthy (l_archiveHash l) \<or> l_currentModified l \<noteq> None)
          then
            (let w1 =
                   (case cache w (l_app l) of
                      None \<Rightarrow> w
                    | Some e \<Rightarrow>
                        if fullPath e \<noteq> l_newApp l \<and> fs_exists env w (fullPath e)
                        then fs_rimraf env (fullPath e) w else w)
             in (Inr (l_newApp l),
                 cache_set (l_app l)
                   \<lparr>hash = l_archiveHash l, lastModified = l_currentModified l,
                    fullPath = l_newApp l\<rparr> w1))
          else (Inr (l_newApp l), w))"

text \<open>
  The function passed to \<^verbatim>\<open>APPLICATIONS_CACHE_GUARD.acquire\<close> (lines 113-244), run
  without interleaving.
\<close>

definition guarded_body :: "env \<Rightarrow> string list \<Rightarrow> string \<Rightarrow> world \<Rightarrow> (error + string) \<times> world" where
  "guarded_body env supportedAppExtensions app w =
     (case source_stage env supportedAppExtensions app w of
        (Throw e, w1) \<Rightarrow> (Inl e, w1)
      | (Return p, w1) \<Rightarrow> (Inr p, w1)
      | (Continue l, w1) \<Rightarrow>
          (case unzip_stage env supportedAppExtensions l w1 of
             (Throw e, w2) \<Rightarrow> (Inl e, w2)
           | (Return p, w2) \<Rightarrow> (Inr p, w2)
           | (Continue l', w2) \<Rightarrow> cache_stage env supportedAppExtensions l' w2))"

text \<open>
  \<^verbatim>\<open>configureApp\<close>: \<open>Inr None\<close> is the return without a value of line 100.
\<close>

definition configureApp ::
  "env \<Rightarrow> js_value \<Rightarrow> ext_arg \<Rightarrow> world \<Rightarrow> (error + string option) \<times> world" where
  "configureApp env app supportedAppExtensions w =
     (case app of
        Str s \<Rightarrow>
          (case guarded_body env (toExtArray supportedAppExtensions) s w of
             (Inl e, w') \<Rightarrow> (Inl e, w')
           | (Inr p, w') \<Rightarrow> (Inr (Some p), w'))
      | _ \<Rightarrow> (Inr None, w))"

subsection \<open>The header tests of the name derivation, by themselves\<close>

text \<open>
  The condition of lines 143-147, the match of lines 154-157 and the name built in lines
  166-175, used to state what \<open>deriveFileName\<close> computes.
\<close>

definition zip_content_type :: "headers \<Rightarrow> bool" where
  "zip_content_type hs =
     (case hs ''content-type'' of
        None \<Rightarrow> False
      | Some ct \<Rightarrow> ct \<noteq> [] \<and> list_ex (\<lambda>mimeType. bounded_match mimeType ct) ZIP_MIME_TYPES)"

definition disposition_name :: "headers \<Rightarrow> string option" where
  "disposition_name hs =
     (case hs ''content-disposition'' of
        None \<Rightarrow> None
      | Some cd \<Rightarrow> if cd \<noteq> [] \<and> is_attachment cd then filename_match cd else None)"

definition fallback_file_name :: "string \<Rightarrow> string list \<Rightarrow> string" where
  "fallback_file_name basename supportedAppExtensions =
     (if basename \<noteq> [] then take (length basename - length (path_extname basename)) basename
      else DEFAULT_BASENAME)
     @ (if path_extname basename \<in> set supportedAppExtensions then path_extname basename
        else first_ext supportedAppExtensions)"

subsection \<open>What a probe of a link yields\<close>

text \<open>The headers \<open>retrieveHeaders\<close> returns for a link, and the freshness token in them.\<close>

definition probed_headers :: "env \<Rightarrow> string \<Rightarrow> headers" where
  "probed_headers env link = (case head_request env link of Some hs \<Rightarrow> hs | None \<Rightarrow> Map.empty)"

definition probed_modified :: "env \<Rightarrow> string \<Rightarrow> js_date option" where
  "probed_modified env link = currentModified_of env (probed_headers env link)"



subsection \<open>Calls that share a descriptor\<close>


subsection \<open>Path-segment depth\<close>

text \<open>
  The number of segments of a relative path, counted on the path itself: one more than
  the number of separators in it. This is the measure of depth the ordering of the
  candidates is stated in; it is compared below with the key the code sorts by.
\<close>

definition segment_count :: "string \<Rightarrow> nat" where
  "segment_count p = Suc (length (filter (\<lambda>c. c = path_sep) p))"

subsection \<open>Normal forms of paths\<close>

text \<open>A segment that normalisation keeps: not empty, not a dot segment, no separator.\<close>

definition clean_seg :: "string \<Rightarrow> bool" where
  "clean_seg s = (s \<noteq> [] \<and> s \<noteq> ''.'' \<and> s \<noteq> ''..'' \<and> path_sep \<notin> set s)"

subsection \<open>Concrete collaborators for the examples\<close>

text \<open>
  A small \<^verbatim>\<open>url.parse\<close>: the scheme \<^verbatim>\<open>http:\<close> is recognised, the path name starts at
  the first separator after the host.
\<close>

definition fx_parse :: "string \<Rightarrow> parsed_url" where
  "fx_parse s =
     (if prefix ''http://'' s
      then \<lparr>protocol = Some ''http:'',
            pathname = Some (dropWhile (\<lambda>c. c \<noteq> path_sep) (drop 7 s)), href = s\<rparr>
      else \<lparr>protocol = None, pathname = Some s, href = s\<rparr>)"

text \<open>
  The server answers every HEAD request with the modification time \<^verbatim>\<open>t5\<close> and every
  GET request with a zip of four entries; the working directory is \<^verbatim>\<open>/work\<close>.
\<close>

definition fx_entries :: "(string \<times> node) list" where
  "fx_entries =
     [(''a/b/x.apk'', File ''1''), (''a'', Dir), (''y.apk'', File ''2''), (''z.apk'', File ''3'')]"

text \<open>An iOS archive: the bundle directory below \<^verbatim>\<open>Payload\<close> and a file in it.\<close>

definition fx_ipa_entries :: "(string \<times> node) list" where
  "fx_ipa_entries =
     [(''Payload'', Dir), (''Payload/Demo.app'', Dir),
      (''Payload/Demo.app/Info.plist'', File ''plist'')]"

definition fx_env :: env where
  "fx_env =
     \<lparr>url_parse = fx_parse,
      head_request = (\<lambda>u. Some [''last-modified'' \<mapsto> ''t5'']),
      get_request = (\<lambda>u. Response 200 ''OK'' ''zipbytes''),
      parse_date = (\<lambda>s. if s = ''t5'' then ValidDate 5 else InvalidDate),
      decodeURIComponent = Some,
      sanitize = (\<lambda>s. s),
      digest = (\<lambda>c. ''h:'' @ c),
      zip_read = (\<lambda>c. if c = ''zipbytes'' then Extracted fx_entries
                      else if c = ''ipabytes'' then Extracted fx_ipa_entries
                      else InvalidZip),
      cwd = ''/work'',
      tmp_dir_name = (\<lambda>n. ''/tmp/d'' @ replicate n (CHR ''x''))\<rparr>"

text \<open>A machine with three local files and an empty cache.\<close>

definition fx_world :: world where
  "fx_world =
     \<lparr>cache = Map.empty,
      files = [''/work/app.apk'' \<mapsto> File ''apk'', ''/work/app.ipa'' \<mapsto> File ''zipbytes'',
               ''/work/ios.ipa'' \<mapsto> File ''ipabytes''],
      tmp_counter = 0,
      net_log = [],
      extractions = []\<rparr>"

text \<open>
  Response headers: an archive content type with an attachment named \<^verbatim>\<open>foo.zip\<close>, and
  an attachment named \<^verbatim>\<open>other.apk\<close> alone.
\<close>

definition fx_quote :: string where
  "fx_quote = [CHR 0x22]"

definition fx_headers_foo :: headers where
  "fx_headers_foo =
     [''content-type'' \<mapsto> ''application/zip'',
      ''content-disposition'' \<mapsto> ''attachment; filename='' @ fx_quote @ ''foo.zip'' @ fx_quote]"

definition fx_headers_other :: headers where
  "fx_headers_other =
     [''content-disposition'' \<mapsto> ''attachment; filename='' @ fx_quote @ ''other.apk'' @ fx_quote]"

text \<open>
  A remote application, a cache that still names an artifact that is gone from the disk, a
  server that cannot be reached, and a cache that names an existing artifact.
\<close>

definition fx_url :: string where
  "fx_url = ''http://host/dl/app.apk''"

definition fx_stale_world :: world where
  "fx_stale_world =
     fx_world\<lparr>cache := [fx_url \<mapsto>
       \<lparr>hash = None, lastModified = Some (ValidDate 9), fullPath = ''/tmp/gone/app.apk''\<rparr>]\<rparr>"

definition fx_offline_env :: env where
  "fx_offline_env = fx_env\<lparr>get_request := (\<lambda>u. TransportError ''ECONNRESET'')\<rparr>"


text \<open>
  A remote archive, and a cache that holds its digest from an earlier download together
  with an existing artifact.
\<close>

definition fx_zip_url :: string where
  "fx_zip_url = ''http://host/dl/app.zip''"

definition fx_dedup_world :: world where
  "fx_dedup_world =
     fx_world\<lparr>cache := [fx_zip_url \<mapsto>
       \<lparr>hash = Some ''h:zipbytes'', lastModified = None, fullPath = ''/work/app.apk''\<rparr>]\<rparr>"


text \<open>
  An archive whose deepest entry has the shortest name but one: the entry three segments
  deep is enumerated first, the two top-level entries follow, the longer name first.
\<close>

definition fx_depth_entries :: "(string \<times> node) list" where
  "fx_depth_entries =
     [(''a/b/x.apk'', File ''1''), (''a'', Dir), (''a/b'', Dir),
      (''toplevel-bundle.apk'', File ''2''), (''z.apk'', File ''3'')]"

definition fx_depth_env :: env where
  "fx_depth_env = fx_env\<lparr>zip_read := (\<lambda>c. Extracted fx_depth_entries)\<rparr>"

section \<open>Properties\<close>

subsection \<open>Paths and the filesystem\<close>

lemma split_on_no_sep: "\<forall>seg\<in>set (split_on c s). c \<notin> set seg"
  by (induction s) (auto split: list.splits)

lemma split_on_nonempty: "split_on c s \<noteq> []"
  by (cases s) (auto split: list.splits)

lemma split_on_plain: "c \<notin> set s \<Longrightarrow> split_on c s = [s]"
  by (induction s) auto

lemma split_on_append:
  "c \<notin> set s \<Longrightarrow> split_on c (s @ c # t) = s # split_on c t"
  by (induction s) auto

lemma split_on_join:
  "ss \<noteq> [] \<Longrightarrow> \<forall>s\<in>set ss. path_sep \<notin> set s \<Longrightarrow> split_on path_sep (join_segs ss) = ss"
proof (induction ss rule: join_segs.induct)
  case 1
  then show ?case by simp
next
  case (2 s)
  then show ?case by (simp add: split_on_plain)
next
  case (3 s t ss)
  then show ?case by (simp add: split_on_append)
qed

lemma norm_segs_clean_out:
  "\<forall>s\<in>set acc. clean_seg s \<Longrightarrow> \<forall>s\<in>set ss. path_sep \<notin> set s
   \<Longrightarrow> \<forall>s\<in>set (norm_segs acc ss). clean_seg s"
proof (induction acc ss rule: norm_segs.induct)
  case (1 acc)
  then show ?case by simp
next
  case (2 acc s ss)
  have rest: "\<forall>x\<in>set ss. path_sep \<notin> set x" and here: "path_sep \<notin> set s"
    using "2.prems"(2) by simp_all
  have tl_ok: "\<forall>x\<in>set (tl acc). clean_seg x"
    using "2.prems"(1) by (cases acc) simp_all
  show ?case
  proof (cases "s = [] \<or> s = ''.''")
    case True
    then have eq: "norm_segs acc (s # ss) = norm_segs acc ss"
      by simp
    show ?thesis
      unfolding eq by (rule "2.IH"(1) [OF True "2.prems"(1) rest])
  next
    case False
    show ?thesis
    proof (cases "s = ''..''")
      case True
      have eq: "norm_segs acc (s # ss) = norm_segs (tl acc) ss"
        using False True by simp
      show ?thesis
        unfolding eq by (rule "2.IH"(2) [OF False True tl_ok rest])
    next
      case keep: False
      have eq: "norm_segs acc (s # ss) = norm_segs (s # acc) ss"
        using False keep by simp
      have "clean_seg s"
        using False keep here by (simp add: clean_seg_def)
      then have all: "\<forall>x\<in>set (s # acc). clean_seg x"
        using "2.prems"(1) by simp
      show ?thesis
        unfolding eq by (rule "2.IH"(3) [OF False keep all rest])
    qed
  qed
qed

lemma norm_segs_clean_in:
  "\<forall>s\<in>set ss. clean_seg s \<Longrightarrow> norm_segs acc ss = rev acc @ ss"
proof (induction ss arbitrary: acc)
  case Nil
  then show ?case by simp
next
  case (Cons s ss)
  then have "s \<noteq> []" "s \<noteq> ''.''" "s \<noteq> ''..''" "\<forall>x\<in>set ss. clean_seg x"
    by (simp_all add: clean_seg_def)
  then show ?case
    using Cons.IH [of "s # acc"] by simp
qed

lemma path_resolve_clean:
  "\<exists>ss. path_resolve base p = path_sep # join_segs ss \<and> (\<forall>s\<in>set ss. clean_seg s)"
proof -
  let ?segs = "split_on path_sep (if path_isAbsolute p then p else base @ path_sep # p)"
  have "\<forall>s\<in>set ?segs. path_sep \<notin> set s"
    by (rule split_on_no_sep)
  then have "\<forall>s\<in>set (norm_segs [] ?segs). clean_seg s"
    using norm_segs_clean_out [of "[]" ?segs] by simp
  then show ?thesis
    unfolding path_resolve_def by blast
qed

lemma path_resolve_of_clean:
  assumes "\<forall>s\<in>set ss. clean_seg s"
  shows "path_resolve base (path_sep # join_segs ss) = path_sep # join_segs ss"
proof (cases "ss = []")
  case True
  then show ?thesis
    by (simp add: path_resolve_def path_isAbsolute_def)
next
  case False
  have nosep: "\<forall>s\<in>set ss. path_sep \<notin> set s"
    using assms by (simp add: clean_seg_def)
  have "split_on path_sep (path_sep # join_segs ss) = [] # ss"
    using split_on_join [OF False nosep] by simp
  then show ?thesis
    using norm_segs_clean_in [OF assms, of "[]"]
    by (simp add: path_resolve_def path_isAbsolute_def)
qed

lemma path_resolve_idem: "path_resolve a (path_resolve b p) = path_resolve b p"
proof -
  obtain ss where "path_resolve b p = path_sep # join_segs ss" "\<forall>s\<in>set ss. clean_seg s"
    using path_resolve_clean by blast
  then show ?thesis
    by (simp add: path_resolve_of_clean)
qed

lemma fs_key_resolve: "fs_key env (path_resolve b p) = path_resolve b p"
  by (simp add: fs_key_def path_resolve_idem)

lemma fs_key_idem: "fs_key env (fs_key env' p) = fs_key env' p"
  by (simp add: fs_key_def path_resolve_idem)

lemma under_refl: "under p p"
  by (simp add: under_def)

lemma files_rimraf_under: "under (fs_key env p) q \<Longrightarrow> files (fs_rimraf env p w) q = None"
  by (simp add: fs_rimraf_def)

lemma files_rimraf_other:
  "\<not> under (fs_key env p) q \<Longrightarrow> files (fs_rimraf env p w) q = files w q"
  by (simp add: fs_rimraf_def)

lemma tmp_counter_rimraf: "tmp_counter (fs_rimraf env p w) = tmp_counter w"
  by (simp add: fs_rimraf_def)

lemma files_mv_dst:
  "files (fs_mv env src (path_resolve b p) w) (path_resolve b p)
   = files w (fs_key env src)"
  by (simp add: fs_mv_def Let_def fs_key_resolve under_refl)

lemma files_extract_entry:
  assumes "e \<in> fst ` set entries"
  shows "files (extract_into env dir entries w) (path_resolve (fs_key env dir) e) \<noteq> None"
proof -
  let ?kv = "map (\<lambda>(e, n). (path_resolve (fs_key env dir) e, n)) (rev entries)"
  have "path_resolve (fs_key env dir) e \<in> fst ` set ?kv"
    using assms by force
  then have "map_of ?kv (path_resolve (fs_key env dir) e) \<noteq> None"
    by (simp add: map_of_eq_None_iff)
  then show ?thesis
    by (auto simp: extract_into_def map_add_Some_iff)
qed


subsection \<open>Arguments that are not strings\<close>

text \<open>
  C10. For every \<^verbatim>\<open>app\<close> argument that is not a string (null, undefined, a number, an
  object), \<^verbatim>\<open>configureApp\<close> returns at once without a value and without an error; the
  state of the process, and with it the request log and the cache, is the one it started
  from.
\<close>

theorem configureApp_non_string:
  "\<not> isString app \<Longrightarrow> configureApp env app supportedAppExtensions w = (Inr None, w)"
  by (cases app) (simp_all add: configureApp_def)

theorem configureApp_non_string_witness:
  "\<not> isString Null
   \<and> configureApp fx_env Null (ExtArray [''.apk'']) fx_world = (Inr None, fx_world)"
  using configureApp_non_string [of Null fx_env "ExtArray [''.apk'']" fx_world] by simp

subsection \<open>The bundle chosen from an archive\<close>

lemma sort_key_head_split:
  assumes "sort_key f xs = b # rest"
  shows "\<exists>pre post. xs = pre @ b # post \<and> (\<forall>c\<in>set pre. f b < f c) \<and> (\<forall>c\<in>set post. f b \<le> f c)"
proof -
  have srt: "sorted (map f (b # rest))"
    using sorted_sort_key [of f xs] assms by simp
  have mem: "set xs = set (b # rest)"
    using set_sort [of f xs] assms by simp
  have least: "\<forall>c\<in>set xs. f b \<le> f c"
    using srt mem by auto
  have "filter (\<lambda>y. f y = f b) xs = filter (\<lambda>y. f y = f b) (b # rest)"
    using sort_key_stable [of f "f b" xs] assms by simp
  then have "filter (\<lambda>y. f y = f b) xs = b # filter (\<lambda>y. f y = f b) rest"
    by simp
  then obtain us vs where split: "xs = us @ b # vs" and before: "\<forall>u\<in>set us. f u \<noteq> f b"
    by (auto dest: filter_eq_ConsD)
  have "\<forall>c\<in>set us. f b < f c"
    using before least split by (auto simp: less_le)
  moreover have "\<forall>c\<in>set vs. f b \<le> f c"
    using least split by auto
  ultimately show ?thesis using split by blast
qed


lemma depth_segment_count: "depth p = segment_count p"
proof (induction p)
  case Nil
  then show ?case by (simp add: depth_def segment_count_def)
next
  case (Cons c p)
  then show ?case
    by (cases "split_on path_sep p") (auto simp: depth_def segment_count_def)
qed

lemma segment_count_join:
  assumes "ss \<noteq> []" and "\<forall>s\<in>set ss. path_sep \<notin> set s"
  shows "segment_count (join_segs ss) = length ss"
  using split_on_join [OF assms] depth_segment_count [of "join_segs ss"]
  by (simp add: depth_def)

text \<open>
  C4. For every archive that is extracted, \<^verbatim>\<open>unzipApp\<close> keeps the enumerated entries
  whose extension is supported and orders them by ascending number of path segments with
  ties in enumeration order; the number of segments is \<open>segment_count\<close>, which gives
  the length of every list of separator-free segments joined into a path. The bundle
  returned, below the destination root, is the first of the ordered candidates: it has
  strictly fewer segments than every candidate enumerated before it and at most as many
  as every candidate enumerated after it. When no entry is kept the call fails with the
  error that names the attempted extensions.
\<close>

theorem unzipApp_shallowest_match:
  assumes "zip_at env w zipPath = Extracted entries"
  shows "let exts = toExtArray ext_arg;
             found = filter (\<lambda>p. path_extname p \<in> set exts) (map fst entries);
             ordered = allBundleItems exts (map fst entries)
         in sorted (map segment_count ordered)
            \<and> (\<forall>k. filter (\<lambda>p. segment_count p = k) ordered
                   = filter (\<lambda>p. segment_count p = k) found)
            \<and> (\<forall>ss. ss \<noteq> [] \<and> (\<forall>s\<in>set ss. path_sep \<notin> set s)
                   \<longrightarrow> segment_count (join_segs ss) = length ss)
            \<and> (found = [] \<longrightarrow>
                 fst (unzipApp env zipPath dstRoot ext_arg w) = Inl (NoBundleFound exts))
            \<and> (found \<noteq> [] \<longrightarrow>
                 (\<exists>pre b post. found = pre @ b # post
                    \<and> (\<forall>c\<in>set pre. segment_count b < segment_count c)
                    \<and> (\<forall>c\<in>set post. segment_count b \<le> segment_count c)
                    \<and> fst (unzipApp env zipPath dstRoot ext_arg w)
                        = Inr (path_resolve (fs_key env dstRoot) b)))"
proof -
  define exts where "exts = toExtArray ext_arg"
  define found where "found = filter (\<lambda>p. path_extname p \<in> set exts) (map fst entries)"
  define ordered where "ordered = allBundleItems exts (map fst entries)"
  have key: "depth = segment_count"
    by (rule ext) (rule depth_segment_count)
  have ord: "ordered = sort_key segment_count found"
    by (simp add: ordered_def found_def allBundleItems_def key)
  have s1: "sorted (map segment_count ordered)"
    by (simp add: ord)
  have s2: "\<forall>k. filter (\<lambda>p. segment_count p = k) ordered
      = filter (\<lambda>p. segment_count p = k) found"
    by (simp add: ord sort_key_stable)
  have s0: "\<forall>ss. ss \<noteq> [] \<and> (\<forall>s\<in>set ss. path_sep \<notin> set s)
      \<longrightarrow> segment_count (join_segs ss) = length ss"
    using segment_count_join by blast
  have s3: "fst (unzipApp env zipPath dstRoot ext_arg w) = Inl (NoBundleFound exts)"
    if "found = []"
    using that assms ord
    by (simp add: unzipApp_def ordered_def exts_def split: prod.splits)
  have s4: "\<exists>pre b post. found = pre @ b # post
              \<and> (\<forall>c\<in>set pre. segment_count b < segment_count c)
              \<and> (\<forall>c\<in>set post. segment_count b \<le> segment_count c)
              \<and> fst (unzipApp env zipPath dstRoot ext_arg w)
                  = Inr (path_resolve (fs_key env dstRoot) b)"
    if ne: "found \<noteq> []"
  proof -
    have "ordered \<noteq> []"
      using ne length_sort [of segment_count found] by (auto simp: ord simp del: length_sort)
    then obtain b rest where br: "ordered = b # rest"
      by (cases ordered) auto
    then have "sort_key segment_count found = b # rest"
      by (simp add: ord)
    from sort_key_head_split [OF this]
    obtain pre post where sp: "found = pre @ b # post"
      "\<forall>c\<in>set pre. segment_count b < segment_count c"
      "\<forall>c\<in>set post. segment_count b \<le> segment_count c"
      by blast
    have "fst (unzipApp env zipPath dstRoot ext_arg w) = Inr (path_resolve (fs_key env dstRoot) b)"
      using assms br
      by (simp add: unzipApp_def ordered_def exts_def Let_def split: prod.splits)
    with sp show ?thesis by blast
  qed
  show ?thesis
    unfolding Let_def
    using s0 s1 s2 s3 s4
    by (simp only: exts_def [symmetric] found_def [symmetric] ordered_def [symmetric]) blast
qed

theorem unzipApp_shallowest_match_witness:
  "zip_at fx_depth_env fx_world ''/work/app.ipa'' = Extracted fx_depth_entries
   \<and> filter (\<lambda>p. path_extname p \<in> set [''.apk'']) (map fst fx_depth_entries)
       = [''a/b/x.apk'', ''toplevel-bundle.apk'', ''z.apk'']
   \<and> map segment_count [''a/b/x.apk'', ''toplevel-bundle.apk'', ''z.apk''] = [3, 1, 1]
   \<and> map length [''a/b/x.apk'', ''toplevel-bundle.apk'', ''z.apk''] = [9, 19, 5]
   \<and> allBundleItems [''.apk''] (map fst fx_depth_entries)
       = [''toplevel-bundle.apk'', ''z.apk'', ''a/b/x.apk'']
   \<and> fst (unzipApp fx_depth_env ''/work/app.ipa'' ''/tmp/out'' (ExtArray [''.apk'']) fx_world)
       = Inr ''/tmp/out/toplevel-bundle.apk''"
proof -
  have h: "zip_at fx_depth_env fx_world ''/work/app.ipa'' = Extracted fx_depth_entries"
    by code_simp
  have found: "filter (\<lambda>p. path_extname p \<in> set [''.apk'']) (map fst fx_depth_entries)
       = [''a/b/x.apk'', ''toplevel-bundle.apk'', ''z.apk'']"
    by code_simp
  have counts: "map segment_count [''a/b/x.apk'', ''toplevel-bundle.apk'', ''z.apk''] = [3, 1, 1]"
    "map length [''a/b/x.apk'', ''toplevel-bundle.apk'', ''z.apk''] = [9, 19, 5]"
    by code_simp+
  have ordered: "allBundleItems [''.apk''] (map fst fx_depth_entries)
       = [''toplevel-bundle.apk'', ''z.apk'', ''a/b/x.apk'']"
    by code_simp
  have res: "fst (unzipApp fx_depth_env ''/work/app.ipa'' ''/tmp/out'' (ExtArray [''.apk''])
       fx_world) = Inr ''/tmp/out/toplevel-bundle.apk''"
    by code_simp
  from unzipApp_shallowest_match [OF h, of "ExtArray [''.apk'']" "''/tmp/out''"]
    h found counts ordered res
  show ?thesis by blast
qed

subsection \<open>The scratch directory of an extraction\<close>

text \<open>
  C5. On every exit path of \<^verbatim>\<open>unzipApp\<close> the temporary directory it created is gone
  afterwards: an invalid archive is rejected before any directory is created and leaves
  the state as it was; on every other path, failing or successful, exactly one directory
  was created and neither it nor anything below it exists afterwards, and on success
  the returned bundle exists where it was moved to (unless the destination lies inside
  the scratch directory itself).
\<close>

theorem unzipApp_removes_tmp:
  assumes "unzipApp env zipPath dstRoot ext_arg w = (r, w')"
  shows "let tmpRoot = fs_key env (tmp_dir_name env (tmp_counter w))
         in if zip_at env w zipPath = InvalidZip
            then r = Inl (InvalidArchive zipPath) \<and> w' = w
            else tmp_counter w' = Suc (tmp_counter w)
                 \<and> (\<forall>q. under tmpRoot q \<longrightarrow> files w' q = None)
                 \<and> (\<forall>dstPath. r = Inr dstPath \<and> \<not> under tmpRoot dstPath
                       \<longrightarrow> files w' dstPath \<noteq> None)"
proof (cases "zip_at env w zipPath")
  case InvalidZip
  then show ?thesis
    using assms by (simp add: unzipApp_def)
next
  case ExtractFails
  then show ?thesis
    using assms
    by (auto simp: unzipApp_def tempDir_openDir_def Let_def files_rimraf_under
        tmp_counter_rimraf log_extraction_def)
next
  case (Extracted entries)
  let ?tmp = "tmp_dir_name env (tmp_counter w)"
  let ?w1 = "w\<lparr>files := (files w)(fs_key env ?tmp \<mapsto> Dir),
               tmp_counter := Suc (tmp_counter w)\<rparr>"
  let ?w2 = "extract_into env ?tmp entries (log_extraction zipPath ?w1)"
  have open_dir: "tempDir_openDir env w = (?tmp, ?w1)"
    by (simp add: tempDir_openDir_def Let_def)
  have cnt: "tmp_counter ?w2 = Suc (tmp_counter w)"
    by (simp add: extract_into_def log_extraction_def)
  show ?thesis
  proof (cases "allBundleItems (toExtArray ext_arg) (map fst entries)")
    case Nil
    then have "w' = fs_rimraf env ?tmp ?w2" and "r = Inl (NoBundleFound (toExtArray ext_arg))"
      using assms Extracted Nil by (simp_all add: unzipApp_def Let_def open_dir)
    then show ?thesis
      using Extracted cnt by (simp add: files_rimraf_under tmp_counter_rimraf)
  next
    case (Cons b rest)
    let ?dst = "path_resolve (fs_key env dstRoot) b"
    let ?w3 = "fs_mv env (path_resolve (fs_key env ?tmp) b) ?dst ?w2"
    have res: "w' = fs_rimraf env ?tmp ?w3" "r = Inr ?dst"
      using assms Extracted Cons by (simp_all add: unzipApp_def Let_def open_dir)
    have "b \<in> set (allBundleItems (toExtArray ext_arg) (map fst entries))"
      using Cons by simp
    then have "b \<in> fst ` set entries"
      by (auto simp: allBundleItems_def)
    then have "files ?w2 (path_resolve (fs_key env ?tmp) b) \<noteq> None"
      by (rule files_extract_entry)
    then have moved: "files ?w3 ?dst \<noteq> None"
      by (simp add: files_mv_dst fs_key_resolve)
    have cnt3: "tmp_counter ?w3 = Suc (tmp_counter w)"
      using cnt by (simp add: fs_mv_def Let_def)
    show ?thesis
      using Extracted res moved cnt3
      by (simp add: files_rimraf_under files_rimraf_other tmp_counter_rimraf)
  qed
qed

theorem unzipApp_removes_tmp_witness:
  "zip_at fx_env fx_world ''/work/app.ipa'' \<noteq> InvalidZip
   \<and> (case unzipApp fx_env ''/work/app.ipa'' ''/tmp/out'' (ExtArray [''.app'']) fx_world of
        (r, w') \<Rightarrow> r = Inl (NoBundleFound [''.app'']) \<and> files w' ''/tmp/d'' = None)"
proof -
  obtain r w' where
    h: "unzipApp fx_env ''/work/app.ipa'' ''/tmp/out'' (ExtArray [''.app'']) fx_world = (r, w')"
    by (cases "unzipApp fx_env ''/work/app.ipa'' ''/tmp/out'' (ExtArray [''.app'']) fx_world")
  have "fst (unzipApp fx_env ''/work/app.ipa'' ''/tmp/out'' (ExtArray [''.app'']) fx_world)
      = Inl (NoBundleFound [''.app''])"
    by code_simp
  then have r: "r = Inl (NoBundleFound [''.app''])"
    by (simp add: h)
  have z: "zip_at fx_env fx_world ''/work/app.ipa'' \<noteq> InvalidZip"
    by code_simp
  have k: "fs_key fx_env (tmp_dir_name fx_env (tmp_counter fx_world)) = ''/tmp/d''"
    by code_simp
  have "\<forall>q. under ''/tmp/d'' q \<longrightarrow> files w' q = None"
    using unzipApp_removes_tmp [OF h] z unfolding Let_def k by presburger
  then have "files w' ''/tmp/d'' = None"
    using under_refl by blast
  then show ?thesis
    using r z by (simp add: h)
qed

subsection \<open>Local archives and unsupported extensions\<close>

lemma zip_at_openDir:
  assumes "files w (fs_key env (tmp_dir_name env (tmp_counter w))) = None"
    and "zip_at env w p = Extracted entries"
  shows "zip_at env (snd (tempDir_openDir env w)) p = Extracted entries"
proof -
  have "fs_key env p \<noteq> fs_key env (tmp_dir_name env (tmp_counter w))"
    using assms by (auto simp: zip_at_def split: option.splits)
  then show ?thesis
    using assms(2) by (simp add: zip_at_def tempDir_openDir_def Let_def)
qed

lemma fs_hash_of_zip:
  "zip_at env w p = Extracted entries \<Longrightarrow> \<exists>h. fs_hash env w p = Inr h"
  by (auto simp: zip_at_def fs_hash_def split: option.splits node.splits)

lemma allBundleItems_none:
  "\<forall>e\<in>set items. path_extname e \<notin> set S \<Longrightarrow> allBundleItems S items = []"
  by (simp add: allBundleItems_def filter_empty_conv)

lemma unzipApp_no_bundle:
  assumes "zip_at env w p = Extracted entries"
    and "\<forall>e\<in>set entries. path_extname (fst e) \<notin> set S"
  shows "fst (unzipApp env p dst (ExtArray S) w) = Inl (NoBundleFound S)"
  using assms
  by (simp add: unzipApp_def allBundleItems_none Let_def split: prod.splits)

lemma local_ipa_no_bundle:
  assumes "\<not> isUrl env app"
    and "fs_exists env w app"
    and "path_extname app = ''.ipa''"
    and "cache w app = None"
    and "files w (fs_key env (tmp_dir_name env (tmp_counter w))) = None"
    and "zip_at env w app = Extracted entries"
    and "\<forall>e\<in>set entries. path_extname (fst e) \<notin> set S"
  shows "fst (configureApp env (Str app) (ExtArray S) w) = Inl (NoBundleFound S)"
proof -
  let ?l = "\<lparr>l_app = app, l_newApp = app, l_shouldUnzipApp = True,
             l_archiveHash = None, l_currentModified = None\<rparr>"
  have src: "source_stage env S app w = (Continue ?l, w)"
    using assms(1-3) by (simp add: source_stage_def ZIP_EXTS_def)
  obtain h where h: "fs_hash env w app = Inr h"
    using fs_hash_of_zip [OF assms(6)] by blast
  obtain d w1 where od: "tempDir_openDir env w = (d, w1)"
    by (cases "tempDir_openDir env w")
  have "zip_at env w1 app = Extracted entries"
    using zip_at_openDir [OF assms(5,6)] od by simp
  then have uz: "fst (unzipApp env app d (ExtArray S) w1) = Inl (NoBundleFound S)"
    using assms(7) by (rule unzipApp_no_bundle)
  obtain w2 where "unzipApp env app d (ExtArray S) w1 = (Inl (NoBundleFound S), w2)"
    using uz by (cases "unzipApp env app d (ExtArray S) w1") simp
  then have "extract_stage env S ?l h w = (Throw (NoBundleFound S), w2)"
    using od by (simp add: extract_stage_def)
  then have "unzip_stage env S ?l w = (Throw (NoBundleFound S), w2)"
    using h assms(4) by (simp add: unzip_stage_def)
  then show ?thesis
    using src by (simp add: configureApp_def guarded_body_def)
qed

lemma local_plain_unsupported:
  assumes "\<not> isUrl env app"
    and "fs_exists env w app"
    and "path_extname app \<notin> set ZIP_EXTS"
    and "path_isAbsolute app"
    and "path_extname app \<notin> set S"
  shows "configureApp env (Str app) (ExtArray S) w = (Inl (UnsupportedExtension app S), w)"
  using assms
  by (simp add: configureApp_def guarded_body_def source_stage_def unzip_stage_def
      cache_stage_def verifyAppExtension_def)


text \<open>
  C7. \<^verbatim>\<open>.ipa\<close> is one of \<^verbatim>\<open>ZIP_EXTS\<close>, so an existing local \<^verbatim>\<open>.ipa\<close> file
  is unpacked: with no cache entry for the path and an archive that extracts without an
  entry of a supported extension, the call fails with the error of \<^verbatim>\<open>unzipApp\<close> that
  names the supported set. The error of \<^verbatim>\<open>verifyAppExtension\<close>, naming the path and
  the supported set, is what an existing absolute local file gets that is not an archive
  and whose extension is not supported.
\<close>

theorem local_ipa_is_unpacked:
  assumes "\<not> isUrl env app" and "fs_exists env w app"
  shows "(path_extname app = ''.ipa'' \<and> cache w app = None
          \<and> files w (fs_key env (tmp_dir_name env (tmp_counter w))) = None
          \<and> zip_at env w app = Extracted entries
          \<and> (\<forall>e\<in>set entries. path_extname (fst e) \<notin> set S)
          \<longrightarrow> fst (configureApp env (Str app) (ExtArray S) w) = Inl (NoBundleFound S))
       \<and> (path_extname app \<notin> set ZIP_EXTS \<and> path_isAbsolute app \<and> path_extname app \<notin> set S
          \<longrightarrow> configureApp env (Str app) (ExtArray S) w
               = (Inl (UnsupportedExtension app S), w))"
  using local_ipa_no_bundle [OF assms] local_plain_unsupported [OF assms] by blast

theorem local_ipa_counterexample:
  "\<not> isUrl fx_env ''/work/ios.ipa''
   \<and> fs_exists fx_env fx_world ''/work/ios.ipa''
   \<and> path_extname ''/work/ios.ipa'' = ''.ipa''
   \<and> fst (configureApp fx_env (Str ''/work/ios.ipa'') (ExtArray [''.apk'']) fx_world)
       = Inl (NoBundleFound [''.apk''])
   \<and> fst (configureApp fx_env (Str ''/work/ios.ipa'') (ExtArray [''.apk'']) fx_world)
       \<noteq> Inl (UnsupportedExtension ''/work/ios.ipa'' [''.apk''])"
  by code_simp

theorem local_ipa_is_unpacked_witness:
  "fst (configureApp fx_env (Str ''/work/ios.ipa'') (ExtArray [''.apk'']) fx_world)
     = Inl (NoBundleFound [''.apk''])
   \<and> configureApp fx_env (Str ''/work/app.apk'') (ExtArray [''.app'']) fx_world
     = (Inl (UnsupportedExtension ''/work/app.apk'' [''.app'']), fx_world)"
proof -
  have a: "\<not> isUrl fx_env ''/work/ios.ipa''" "fs_exists fx_env fx_world ''/work/ios.ipa''"
    by code_simp+
  have a': "path_extname ''/work/ios.ipa'' = ''.ipa''" "cache fx_world ''/work/ios.ipa'' = None"
    "files fx_world (fs_key fx_env (tmp_dir_name fx_env (tmp_counter fx_world))) = None"
    "zip_at fx_env fx_world ''/work/ios.ipa'' = Extracted fx_ipa_entries"
    "\<forall>e\<in>set fx_ipa_entries. path_extname (fst e) \<notin> set [''.apk'']"
    by code_simp+
  have b: "\<not> isUrl fx_env ''/work/app.apk''" "fs_exists fx_env fx_world ''/work/app.apk''"
    by code_simp+
  have b': "path_extname ''/work/app.apk'' \<notin> set ZIP_EXTS" "path_isAbsolute ''/work/app.apk''"
    "path_extname ''/work/app.apk'' \<notin> set [''.app'']"
    by code_simp+
  show ?thesis
    using local_ipa_is_unpacked [OF a, of fx_ipa_entries "[''.apk'']"] a'
      local_ipa_is_unpacked [OF b, of _ "[''.app'']"] b'
    by blast
qed

subsection \<open>Relative local paths\<close>

lemma path_resolve_absolute: "path_isAbsolute (path_resolve base p)"
  by (simp add: path_resolve_def path_isAbsolute_def)


text \<open>
  C8. An existing local descriptor that is neither an archive nor absolute is resolved
  against the working directory; the resolved path is absolute and replaces both
  \<^verbatim>\<open>newApp\<close> and the cache key \<^verbatim>\<open>app\<close>, and it is what the call returns once its
  extension is validated. Acquiring \<^verbatim>\<open>./app.apk\<close> for \<^verbatim>\<open>['.apk']\<close> in \<^verbatim>\<open>/work\<close> gives
  \<^verbatim>\<open>/work/app.apk\<close>.
\<close>

theorem relative_local_path_resolved:
  assumes "\<not> isUrl env app"
    and "fs_exists env w app"
    and "path_extname app \<notin> set ZIP_EXTS"
    and "\<not> path_isAbsolute app"
  shows "let resolved = path_resolve (cwd env) app;
             l = \<lparr>l_app = app, l_newApp = app, l_shouldUnzipApp = False,
                  l_archiveHash = None, l_currentModified = None\<rparr>
         in path_isAbsolute resolved
            \<and> source_stage env (toExtArray exts) app w = (Continue l, w)
            \<and> unzip_stage env (toExtArray exts) l w
                = (Continue (l\<lparr>l_newApp := resolved, l_app := resolved\<rparr>), w)
            \<and> configureApp env (Str app) exts w
                = (if path_extname resolved \<in> set (toExtArray exts) then Inr (Some resolved)
                   else Inl (UnsupportedExtension resolved (toExtArray exts)), w)"
proof -
  let ?r = "path_resolve (cwd env) app"
  let ?l = "\<lparr>l_app = app, l_newApp = app, l_shouldUnzipApp = False,
             l_archiveHash = None, l_currentModified = None\<rparr>"
  have src: "source_stage env (toExtArray exts) app w = (Continue ?l, w)"
    using assms(1-3) by (simp add: source_stage_def)
  have uz: "unzip_stage env (toExtArray exts) ?l w
      = (Continue (?l\<lparr>l_newApp := ?r, l_app := ?r\<rparr>), w)"
    using assms(4) by (simp add: unzip_stage_def Let_def)
  have fin: "configureApp env (Str app) exts w
      = (if path_extname ?r \<in> set (toExtArray exts) then Inr (Some ?r)
         else Inl (UnsupportedExtension ?r (toExtArray exts)), w)"
    by (simp add: configureApp_def guarded_body_def src uz cache_stage_def
        verifyAppExtension_def)
  show ?thesis
    unfolding Let_def using path_resolve_absolute src uz fin by blast
qed

theorem relative_local_path_resolved_witness:
  "configureApp (fx_env\<lparr>cwd := ''/work''\<rparr>) (Str ''./app.apk'') (ExtArray [''.apk'']) fx_world
     = (Inr (Some ''/work/app.apk''), fx_world)"
proof -
  let ?env = "fx_env\<lparr>cwd := ''/work''\<rparr>"
  have h: "\<not> isUrl ?env ''./app.apk''" "fs_exists ?env fx_world ''./app.apk''"
    "path_extname ''./app.apk'' \<notin> set ZIP_EXTS" "\<not> path_isAbsolute ''./app.apk''"
    by code_simp+
  have r: "path_resolve (cwd ?env) ''./app.apk'' = ''/work/app.apk''"
    by code_simp
  have e: "path_extname ''/work/app.apk'' = ''.apk''"
    by code_simp
  show ?thesis
    using relative_local_path_resolved [OF h, of "ExtArray [''.apk'']"]
    unfolding Let_def r by (simp add: e)
qed

subsection \<open>The destination file name\<close>

lemma path_extname_Nil: "path_extname [] = []"
  by (simp add: path_extname_def path_basename_def ext_of_def)

lemma zip_ext_nonempty: "path_extname b \<in> set ZIP_EXTS \<Longrightarrow> b \<noteq> []"
  by (auto simp: path_extname_Nil ZIP_EXTS_def)

lemma content_type_step:
  "name_from_content_type hs st =
     (if zip_content_type hs
      then (if truthy (fst st) then fst st else Some (DEFAULT_BASENAME @ ''.zip''), True)
      else st)"
  by (simp add: name_from_content_type_def zip_content_type_def split: option.splits)

lemma content_disposition_step:
  "name_from_content_disposition env hs st =
     (case disposition_name hs of
        None \<Rightarrow> st
      | Some m \<Rightarrow> (Some (sanitize env m), snd st \<or> path_extname (sanitize env m) \<in> set ZIP_EXTS))"
  by (simp add: name_from_content_disposition_def disposition_name_def Let_def
      split: option.splits)

lemma fallback_step:
  "name_fallback b S st =
     (if truthy (fst st) then st else (Some (fallback_file_name b S), snd st))"
  by (simp add: name_fallback_def fallback_file_name_def Let_def)

text \<open>
  C2. The destination name is derived in the order of the source. Without a
  content-disposition file name: a recognised archive extension of the URL base name
  gives the base name; otherwise an archive content type gives the fixed default name;
  otherwise the fallback gives the base name with an unsupported extension replaced by
  the first supported one. The content type never replaces a name derived before it, and
  a mark for extraction is never cleared. A content-disposition attachment file name,
  when present, replaces whatever name was derived before it (the fallback applies when
  it sanitizes to the empty name) and adds the mark when its own extension is an archive
  extension. A URL without extension, served as \<^verbatim>\<open>application/zip\<close> with the attachment
  name \<^verbatim>\<open>foo.zip\<close>, gets the name \<^verbatim>\<open>foo.zip\<close> and is extracted.
\<close>

theorem deriveFileName_priority:
  "deriveFileName env hs b S =
     (case disposition_name hs of
        Some m \<Rightarrow>
          if sanitize env m \<noteq> []
          then (Some (sanitize env m),
                path_extname b \<in> set ZIP_EXTS \<or> zip_content_type hs
                \<or> path_extname (sanitize env m) \<in> set ZIP_EXTS)
          else (Some (fallback_file_name b S),
                path_extname b \<in> set ZIP_EXTS \<or> zip_content_type hs)
      | None \<Rightarrow>
          if path_extname b \<in> set ZIP_EXTS then (Some b, True)
          else if zip_content_type hs then (Some (DEFAULT_BASENAME @ ''.zip''), True)
          else (Some (fallback_file_name b S), False))
   \<and> (truthy (fst st) \<longrightarrow> fst (name_from_content_type hs st) = fst st)
   \<and> (snd st \<longrightarrow> snd (name_from_content_type hs st)
          \<and> snd (name_from_content_disposition env hs st)
          \<and> snd (name_fallback b S st))"
proof -
  have main: "deriveFileName env hs b S =
     (case disposition_name hs of
        Some m \<Rightarrow>
          if sanitize env m \<noteq> []
          then (Some (sanitize env m),
                path_extname b \<in> set ZIP_EXTS \<or> zip_content_type hs
                \<or> path_extname (sanitize env m) \<in> set ZIP_EXTS)
          else (Some (fallback_file_name b S),
                path_extname b \<in> set ZIP_EXTS \<or> zip_content_type hs)
      | None \<Rightarrow>
          if path_extname b \<in> set ZIP_EXTS then (Some b, True)
          else if zip_content_type hs then (Some (DEFAULT_BASENAME @ ''.zip''), True)
          else (Some (fallback_file_name b S), False))"
  proof (cases "disposition_name hs")
    case None
    then show ?thesis
      using zip_ext_nonempty [of b]
      by (simp add: deriveFileName_def name_from_basename_def content_type_step
          content_disposition_step fallback_step DEFAULT_BASENAME_def)
  next
    case (Some m)
    then show ?thesis
      by (simp add: deriveFileName_def name_from_basename_def content_type_step
          content_disposition_step fallback_step path_extname_Nil ZIP_EXTS_def)
  qed
  have keep: "truthy (fst st) \<longrightarrow> fst (name_from_content_type hs st) = fst st"
    by (simp add: content_type_step)
  have mark: "snd st \<longrightarrow> snd (name_from_content_type hs st)
          \<and> snd (name_from_content_disposition env hs st)
          \<and> snd (name_fallback b S st)"
    by (simp add: content_type_step content_disposition_step fallback_step
        split: option.splits)
  from main keep mark show ?thesis by blast
qed

theorem deriveFileName_overwrite_counterexample:
  "name_from_basename ''app.zip'' = (Some ''app.zip'', True)
   \<and> deriveFileName fx_env fx_headers_other ''app.zip'' [''.apk''] = (Some ''other.apk'', True)"
  by code_simp

theorem deriveFileName_priority_witness:
  "path_extname ''download'' = []
   \<and> disposition_name fx_headers_foo = Some ''foo.zip''
   \<and> zip_content_type fx_headers_foo
   \<and> deriveFileName fx_env fx_headers_foo ''download'' [''.apk''] = (Some ''foo.zip'', True)"
proof -
  have a: "path_extname ''download'' = []" "disposition_name fx_headers_foo = Some ''foo.zip''"
    "zip_content_type fx_headers_foo" "sanitize fx_env ''foo.zip'' = ''foo.zip''"
    by code_simp+
  have "deriveFileName fx_env fx_headers_foo ''download'' [''.apk''] = (Some ''foo.zip'', True)"
    using deriveFileName_priority [of fx_env fx_headers_foo "''download''" "[''.apk'']"]
    by (simp add: a)
  with a show ?thesis by blast
qed

subsection \<open>The stages of configureApp, one at a time\<close>

lemma retrieveHeaders_eq:
  "retrieveHeaders env link w = (probed_headers env link, w\<lparr>net_log := net_log w @ [HEAD link]\<rparr>)"
  by (simp add: retrieveHeaders_def probed_headers_def split: option.splits)

lemma rimraf_fields:
  "cache (fs_rimraf env p w) = cache w"
  "net_log (fs_rimraf env p w) = net_log w"
  "extractions (fs_rimraf env p w) = extractions w"
  by (simp_all add: fs_rimraf_def)

lemma cache_del_fields:
  "cache (cache_del env k w) = (cache w)(k := None)"
  "net_log (cache_del env k w) = net_log w"
  "extractions (cache_del env k w) = extractions w"
  "tmp_counter (cache_del env k w) = tmp_counter w"
  by (auto simp: cache_del_def Let_def rimraf_fields tmp_counter_rimraf split: option.splits)

lemma fs_exists_cache_irrelevant:
  "fs_exists env (w\<lparr>cache := c\<rparr>) p = fs_exists env w p"
  "fs_exists env (w\<lparr>net_log := n\<rparr>) p = fs_exists env w p"
  by (simp_all add: fs_exists_def)

lemma cache_del_missing:
  "cache w k = Some e \<Longrightarrow> \<not> fs_exists env w (fullPath e)
   \<Longrightarrow> cache_del env k w = w\<lparr>cache := (cache w)(k := None)\<rparr>"
  by (simp add: cache_del_def Let_def fs_exists_cache_irrelevant)

lemma openDir_fields:
  "cache (snd (tempDir_openDir env w)) = cache w"
  "net_log (snd (tempDir_openDir env w)) = net_log w"
  "extractions (snd (tempDir_openDir env w)) = extractions w"
  "files w k \<noteq> None \<Longrightarrow> files (snd (tempDir_openDir env w)) k \<noteq> None"
  by (simp_all add: tempDir_openDir_def Let_def)

lemma tempDir_path_fields:
  "cache (snd (tempDir_path env n w)) = cache w"
  "net_log (snd (tempDir_path env n w)) = net_log w"
  "extractions (snd (tempDir_path env n w)) = extractions w"
  "files w k \<noteq> None \<Longrightarrow> files (snd (tempDir_path env n w)) k \<noteq> None"
  "path_isAbsolute (fst (tempDir_path env n w))"
  "fs_key env (fst (tempDir_path env n w)) = fst (tempDir_path env n w)"
  by (simp_all add: tempDir_path_def tempDir_openDir_def Let_def path_resolve_absolute
      fs_key_resolve)

lemma downloadApp_fields:
  "cache (snd (downloadApp env app t w)) = cache w"
  "extractions (snd (downloadApp env app t w)) = extractions w"
  "files w k \<noteq> None \<Longrightarrow> files (snd (downloadApp env app t w)) k \<noteq> None"
  by (simp_all add: downloadApp_def write_file_def Let_def split: http_response.splits)

lemma downloadApp_success:
  assumes "downloadApp env app t w = (Inr p, w')"
  shows "p = t"
    and "net_log w' = net_log w @ [GET (href (url_parse env app))]"
    and "\<exists>c. files w' (fs_key env t) = Some (File c)"
  using assms
  by (auto simp: downloadApp_def write_file_def Let_def split: http_response.splits if_splits)

lemma downloadApp_failure:
  assumes "downloadApp env app t w = (Inl e, w')"
  shows "net_log w' = net_log w @ [GET (href (url_parse env app))]"
    and "\<exists>c. e = DownloadFailure (href (url_parse env app)) c"
  using assms
  by (auto simp: downloadApp_def write_file_def Let_def split: http_response.splits if_splits)

lemma download_stage_frame:
  assumes "download_stage env S app hs cm w = (f, w')"
  shows "cache w' = cache w"
    and "extractions w' = extractions w"
    and "files w k \<noteq> None \<Longrightarrow> files w' k \<noteq> None"
proof -
  show "cache w' = cache w"
    using assms tempDir_path_fields(1) downloadApp_fields(1)
    by (auto simp: download_stage_def Let_def split: option.splits prod.splits sum.splits)
      (metis snd_conv)+
  show "extractions w' = extractions w"
    using assms tempDir_path_fields(3) downloadApp_fields(2)
    by (auto simp: download_stage_def Let_def split: option.splits prod.splits sum.splits)
      (metis snd_conv)+
  show "files w k \<noteq> None \<Longrightarrow> files w' k \<noteq> None"
    using assms tempDir_path_fields(4) downloadApp_fields(3)
    by (auto simp: download_stage_def Let_def split: option.splits prod.splits sum.splits)
      (metis snd_conv)+
qed

lemma download_stage_continue:
  assumes "download_stage env S app hs cm w = (Continue l, w')"
  shows "l_app l = app"
    and "path_isAbsolute (l_newApp l)"
    and "fs_key env (l_newApp l) = l_newApp l"
    and "l_archiveHash l = None"
    and "l_currentModified l = cm"
    and "net_log w' = net_log w @ [GET (href (url_parse env app))]"
    and "\<exists>c. files w' (l_newApp l) = Some (File c)"
proof -
  obtain decoded where dec:
    "decodeURIComponent env (case pathname (url_parse env app) of None \<Rightarrow> ''null'' | Some p \<Rightarrow> p)
       = Some decoded"
    using assms by (auto simp: download_stage_def Let_def split: option.splits)
  define st where "st = deriveFileName env hs (sanitize env (path_basename decoded)) S"
  define n where "n = (case fst st of None \<Rightarrow> [] | Some x \<Rightarrow> x)"
  obtain t w1 where tp: "tempDir_path env n w = (t, w1)"
    by (cases "tempDir_path env n w")
  obtain r w2 where dl: "downloadApp env app t w1 = (r, w2)"
    by (cases "downloadApp env app t w1")
  have unf: "download_stage env S app hs cm w =
      (case r of Inl e \<Rightarrow> (Throw e, w2)
       | Inr p \<Rightarrow> (Continue \<lparr>l_app = app, l_newApp = p, l_shouldUnzipApp = snd st,
                      l_archiveHash = None, l_currentModified = cm\<rparr>, w2))"
    by (simp add: download_stage_def Let_def dec st_def [symmetric] n_def [symmetric] tp dl
        split: sum.splits)
  then obtain p where r: "r = Inr p" and w': "w' = w2"
    and l: "l = \<lparr>l_app = app, l_newApp = p, l_shouldUnzipApp = snd st,
                 l_archiveHash = None, l_currentModified = cm\<rparr>"
    using assms by (cases r) auto
  have pt: "p = t"
    using downloadApp_success(1) dl r by blast
  have abs: "path_isAbsolute t" and key: "fs_key env t = t" and log1: "net_log w1 = net_log w"
    using tempDir_path_fields(5,6,2) [of env n w] tp by simp_all
  show "l_app l = app" "l_archiveHash l = None" "l_currentModified l = cm"
    by (simp_all add: l)
  show "path_isAbsolute (l_newApp l)" "fs_key env (l_newApp l) = l_newApp l"
    by (simp_all add: l pt abs key)
  show "net_log w' = net_log w @ [GET (href (url_parse env app))]"
    using downloadApp_success(2) [of env app t w1 p w2] dl r log1 w' by simp
  show "\<exists>c. files w' (l_newApp l) = Some (File c)"
    using downloadApp_success(3) [of env app t w1 p w2] dl r w' key by (simp add: l pt)
qed

lemma download_stage_no_return: "download_stage env S app hs cm w \<noteq> (Return p, w')"
  by (auto simp: download_stage_def Let_def split: option.splits prod.splits sum.splits)

lemma download_stage_net_log:
  assumes "download_stage env S app hs cm w = (f, w')"
  shows "net_log w' = net_log w \<or> net_log w' = net_log w @ [GET (href (url_parse env app))]"
proof (cases f)
  case (Throw e)
  show ?thesis
  proof (cases "decodeURIComponent env
      (case pathname (url_parse env app) of None \<Rightarrow> ''null'' | Some p \<Rightarrow> p)")
    case None
    then show ?thesis
      using assms by (simp add: download_stage_def Let_def)
  next
    case (Some decoded)
    define st where "st = deriveFileName env hs (sanitize env (path_basename decoded)) S"
    define n where "n = (case fst st of None \<Rightarrow> [] | Some x \<Rightarrow> x)"
    obtain t w1 where tp: "tempDir_path env n w = (t, w1)"
      by (cases "tempDir_path env n w")
    obtain r w2 where dl: "downloadApp env app t w1 = (r, w2)"
      by (cases "downloadApp env app t w1")
    have "download_stage env S app hs cm w =
      (case r of Inl e \<Rightarrow> (Throw e, w2)
       | Inr p \<Rightarrow> (Continue \<lparr>l_app = app, l_newApp = p, l_shouldUnzipApp = snd st,
                      l_archiveHash = None, l_currentModified = cm\<rparr>, w2))"
      by (simp add: download_stage_def Let_def Some st_def [symmetric] n_def [symmetric] tp dl
          split: sum.splits)
    then obtain e' where "r = Inl e'" "w' = w2"
      using assms Throw by (cases r) auto
    moreover have "net_log w1 = net_log w"
      using tempDir_path_fields(2) [of env n w] tp by simp
    ultimately show ?thesis
      using downloadApp_failure(1) [of env app t w1 e' w2] dl by simp
  qed
next
  case (Return p)
  then show ?thesis
    using assms download_stage_no_return by blast
next
  case (Continue l)
  then show ?thesis
    using assms download_stage_continue(6) by blast
qed

lemma getCached_net_log:
  "getCachedApplicationPath (w\<lparr>net_log := n\<rparr>) link cm = getCachedApplicationPath w link cm"
  by (simp add: getCachedApplicationPath_def)

lemma source_stage_url:
  assumes "isUrl env app"
  shows "source_stage env S app w =
     (let w1 = w\<lparr>net_log := net_log w @ [HEAD app]\<rparr>;
          hs = probed_headers env app;
          cm = probed_modified env app
      in case getCachedApplicationPath w app cm of
           None \<Rightarrow> download_stage env S app hs cm w1
         | Some p \<Rightarrow>
             if p = [] then download_stage env S app hs cm w1
             else if fs_exists env w p then (return_verified p S, w1)
             else download_stage env S app hs cm (cache_del env app w1))"
  using assms
  by (simp add: source_stage_def retrieveHeaders_eq Let_def probed_modified_def
      getCached_net_log fs_exists_cache_irrelevant split: option.splits)

lemma return_verified_eq:
  "return_verified q S =
     (if path_extname q \<in> set S then Return q else Throw (UnsupportedExtension q S))"
  by (simp add: return_verified_def verifyAppExtension_def)

lemma extract_into_fields:
  "cache (extract_into env d es w) = cache w"
  "net_log (extract_into env d es w) = net_log w"
  "extractions (extract_into env d es w) = extractions w"
  by (simp_all add: extract_into_def)

lemma fs_mv_fields:
  "cache (fs_mv env a b w) = cache w"
  "net_log (fs_mv env a b w) = net_log w"
  "extractions (fs_mv env a b w) = extractions w"
  by (simp_all add: fs_mv_def Let_def)

lemma log_extraction_fields:
  "cache (log_extraction z w) = cache w"
  "net_log (log_extraction z w) = net_log w"
  "extractions (log_extraction z w) = extractions w @ [z]"
  by (simp_all add: log_extraction_def)

lemma unzipApp_frame:
  assumes "unzipApp env z d x w = (r, w')"
  shows "cache w' = cache w"
    and "net_log w' = net_log w"
    and "extractions w' = extractions w \<or> extractions w' = extractions w @ [z]"
    and "r = Inr p \<Longrightarrow> path_isAbsolute p \<and> extractions w' = extractions w @ [z]"
proof -
  obtain t w1 where od: "tempDir_openDir env w = (t, w1)"
    by (cases "tempDir_openDir env w")
  have f1: "cache w1 = cache w" "net_log w1 = net_log w" "extractions w1 = extractions w"
    using openDir_fields(1-3) [of env w] od by simp_all
  note flds = rimraf_fields extract_into_fields fs_mv_fields log_extraction_fields f1
  show "cache w' = cache w"
    using assms od
    by (auto simp: unzipApp_def Let_def flds split: zip_outcome.splits list.splits)
  show "net_log w' = net_log w"
    using assms od
    by (auto simp: unzipApp_def Let_def flds split: zip_outcome.splits list.splits)
  show "extractions w' = extractions w \<or> extractions w' = extractions w @ [z]"
    using assms od
    by (auto simp: unzipApp_def Let_def flds split: zip_outcome.splits list.splits)
  show "r = Inr p \<Longrightarrow> path_isAbsolute p \<and> extractions w' = extractions w @ [z]"
    using assms od
    by (auto simp: unzipApp_def Let_def flds path_resolve_absolute
        split: zip_outcome.splits list.splits)
qed

lemma extract_stage_frame:
  assumes "extract_stage env S l h w = (f, w')"
  shows "cache w' = cache w"
    and "net_log w' = net_log w"
    and "extractions w' = extractions w \<or> extractions w' = extractions w @ [l_newApp l]"
    and "f \<noteq> Return p"
    and "f = Continue l' \<Longrightarrow> l_app l' = l_app l \<and> path_isAbsolute (l_newApp l')
          \<and> l_archiveHash l' = Some h \<and> l_currentModified l' = l_currentModified l
          \<and> extractions w' = extractions w @ [l_newApp l]"
proof -
  obtain t w1 where od: "tempDir_openDir env w = (t, w1)"
    by (cases "tempDir_openDir env w")
  have f1: "cache w1 = cache w" "net_log w1 = net_log w" "extractions w1 = extractions w"
    using openDir_fields(1-3) [of env w] od by simp_all
  obtain r w2 where uz: "unzipApp env (l_newApp l) t (ExtArray S) w1 = (r, w2)"
    by (cases "unzipApp env (l_newApp l) t (ExtArray S) w1")
  note fr = unzipApp_frame [OF uz]
  have unf: "extract_stage env S l h w =
     (case r of Inl e \<Rightarrow> (Throw e, w2)
      | Inr newApp \<Rightarrow>
          (Continue (l\<lparr>l_newApp := newApp, l_archiveHash := Some h\<rparr>),
           if newApp \<noteq> l_newApp l \<and> l_newApp l \<noteq> l_app l
           then fs_rimraf env (l_newApp l) w2 else w2))"
    by (simp add: extract_stage_def Let_def od uz split: sum.splits)
  show "cache w' = cache w"
    using assms unf fr(1) f1 by (cases r) (auto simp: rimraf_fields split: if_splits)
  show "net_log w' = net_log w"
    using assms unf fr(2) f1 by (cases r) (auto simp: rimraf_fields split: if_splits)
  show "extractions w' = extractions w \<or> extractions w' = extractions w @ [l_newApp l]"
    using assms unf fr(3) f1 by (cases r) (auto simp: rimraf_fields split: if_splits)
  show "f \<noteq> Return p"
    using assms unf by (cases r) auto
  show "f = Continue l' \<Longrightarrow> l_app l' = l_app l \<and> path_isAbsolute (l_newApp l')
          \<and> l_archiveHash l' = Some h \<and> l_currentModified l' = l_currentModified l
          \<and> extractions w' = extractions w @ [l_newApp l]"
    using assms unf fr(4) f1 by (cases r) (auto simp: rimraf_fields split: if_splits)
qed

lemma unzip_stage_frame:
  assumes "unzip_stage env S l w = (f, w')"
  shows "cache w' = cache w
         \<or> (\<exists>e. cache w (l_app l) = Some e \<and> \<not> fs_exists env w (fullPath e)
                \<and> cache w' = (cache w)(l_app l := None))"
    and "net_log w' = net_log w"
    and "extractions w' = extractions w \<or> extractions w' = extractions w @ [l_newApp l]"
    and "f = Return p \<Longrightarrow> path_extname p \<in> set S
          \<and> (\<exists>e. cache w' (l_app l) = Some e \<and> fullPath e = p)
          \<and> cache w' = cache w \<and> extractions w' = extractions w"
    and "f = Continue l' \<Longrightarrow> path_isAbsolute (l_newApp l) \<Longrightarrow>
          l_app l' = l_app l \<and> path_isAbsolute (l_newApp l')
          \<and> l_currentModified l' = l_currentModified l"
proof -
  let ?G = "(cache w' = cache w
         \<or> (\<exists>e. cache w (l_app l) = Some e \<and> \<not> fs_exists env w (fullPath e)
                \<and> cache w' = (cache w)(l_app l := None)))
     \<and> net_log w' = net_log w
     \<and> (extractions w' = extractions w \<or> extractions w' = extractions w @ [l_newApp l])
     \<and> (f = Return p \<longrightarrow> path_extname p \<in> set S
          \<and> (\<exists>e. cache w' (l_app l) = Some e \<and> fullPath e = p)
          \<and> cache w' = cache w \<and> extractions w' = extractions w)
     \<and> (f = Continue l' \<longrightarrow> path_isAbsolute (l_newApp l) \<longrightarrow>
          l_app l' = l_app l \<and> path_isAbsolute (l_newApp l')
          \<and> l_currentModified l' = l_currentModified l)"
  have fresh: "?G" if ex: "extract_stage env S l h w = (f, w')" for h
    using extract_stage_frame(1,2,3) [OF ex] extract_stage_frame(4) [OF ex, of p]
      extract_stage_frame(5) [OF ex, of l']
    by auto
  have "?G"
  proof (cases "l_shouldUnzipApp l")
    case False
    then show ?thesis
      using assms by (auto simp: unzip_stage_def Let_def split: if_splits)
  next
    case zip: True
    show ?thesis
    proof (cases "fs_hash env w (l_newApp l)")
      case (Inl e)
      then show ?thesis
        using assms zip by (auto simp: unzip_stage_def Let_def)
    next
      case (Inr h)
      show ?thesis
      proof (cases "cache w (l_app l)")
        case None
        then have "extract_stage env S l h w = (f, w')"
          using assms zip Inr by (simp add: unzip_stage_def Let_def)
        then show ?thesis by (rule fresh)
      next
        case (Some e)
        show ?thesis
        proof (cases "hash e = Some h")
          case False
          then have "extract_stage env S l h w = (f, w')"
            using assms zip Inr Some by (simp add: unzip_stage_def Let_def)
          then show ?thesis by (rule fresh)
        next
          case same: True
          show ?thesis
          proof (cases "fs_exists env w (fullPath e)")
            case True
            then have "f = return_verified (fullPath e) S"
              and "w' = (if l_newApp l \<noteq> l_app l then fs_rimraf env (l_newApp l) w else w)"
              using assms zip Inr Some same by (simp_all add: unzip_stage_def Let_def)
            then show ?thesis
              using Some by (auto simp: return_verified_eq rimraf_fields split: if_splits)
          next
            case False
            then have ex: "extract_stage env S l h (cache_del env (l_app l) w) = (f, w')"
              using assms zip Inr Some same by (simp add: unzip_stage_def Let_def)
            show ?thesis
              using extract_stage_frame(1,2,3) [OF ex] extract_stage_frame(4) [OF ex, of p]
                extract_stage_frame(5) [OF ex, of l'] Some False
              by (auto simp: cache_del_fields)
          qed
        qed
      qed
    qed
  qed
  then show "cache w' = cache w
         \<or> (\<exists>e. cache w (l_app l) = Some e \<and> \<not> fs_exists env w (fullPath e)
                \<and> cache w' = (cache w)(l_app l := None))"
    and "net_log w' = net_log w"
    and "extractions w' = extractions w \<or> extractions w' = extractions w @ [l_newApp l]"
    and "f = Return p \<Longrightarrow> path_extname p \<in> set S
          \<and> (\<exists>e. cache w' (l_app l) = Some e \<and> fullPath e = p)
          \<and> cache w' = cache w \<and> extractions w' = extractions w"
    and "f = Continue l' \<Longrightarrow> path_isAbsolute (l_newApp l) \<Longrightarrow>
          l_app l' = l_app l \<and> path_isAbsolute (l_newApp l')
          \<and> l_currentModified l' = l_currentModified l"
    by blast+
qed

lemma cache_stage_failure:
  "cache_stage env S l w = (Inl e, w') \<Longrightarrow> w' = w \<and> e = UnsupportedExtension (l_newApp l) S"
  by (auto simp: cache_stage_def verifyAppExtension_def Let_def split: if_splits)

lemma cache_stage_success:
  assumes "cache_stage env S l w = (Inr p, w')"
  shows "p = l_newApp l"
    and "path_extname p \<in> set S"
    and "net_log w' = net_log w"
    and "extractions w' = extractions w"
    and "l_app l \<noteq> l_newApp l \<and> (truthy (l_archiveHash l) \<or> l_currentModified l \<noteq> None)
         \<Longrightarrow> cache w' = (cache w)(l_app l \<mapsto>
               \<lparr>hash = l_archiveHash l, lastModified = l_currentModified l, fullPath = p\<rparr>)"
    and "\<not> (l_app l \<noteq> l_newApp l \<and> (truthy (l_archiveHash l) \<or> l_currentModified l \<noteq> None))
         \<Longrightarrow> w' = w"
  using assms
  by (auto simp: cache_stage_def verifyAppExtension_def Let_def cache_set_def rimraf_fields
      split: if_splits option.splits)

subsection \<open>The cache after a failing call\<close>

lemma getCached_Some:
  "getCachedApplicationPath w link cm = Some p \<Longrightarrow> \<exists>e. cache w link = Some e \<and> fullPath e = p"
  by (auto simp: getCachedApplicationPath_def split: option.splits if_splits)

lemma fs_exists_mono:
  "(\<And>k. files w k \<noteq> None \<Longrightarrow> files w' k \<noteq> None) \<Longrightarrow> fs_exists env w p \<Longrightarrow> fs_exists env w' p"
  by (simp add: fs_exists_def)

lemma source_stage_frame:
  assumes "source_stage env S app w = (f, w1)"
  shows "cache w1 = cache w
         \<or> (\<exists>e. cache w app = Some e \<and> \<not> fs_exists env w (fullPath e)
                \<and> cache w1 = (cache w)(app := None))"
    and "files w k \<noteq> None \<Longrightarrow> files w1 k \<noteq> None"
    and "extractions w1 = extractions w"
    and "f = Continue l \<Longrightarrow> l_app l = app"
proof -
  let ?G = "(cache w1 = cache w
         \<or> (\<exists>e. cache w app = Some e \<and> \<not> fs_exists env w (fullPath e)
                \<and> cache w1 = (cache w)(app := None)))
      \<and> (files w k \<noteq> None \<longrightarrow> files w1 k \<noteq> None)
      \<and> extractions w1 = extractions w
      \<and> (f = Continue l \<longrightarrow> l_app l = app)"
  let ?w1 = "w\<lparr>net_log := net_log w @ [HEAD app]\<rparr>"
  let ?hs = "probed_headers env app"
  let ?cm = "probed_modified env app"
  have dl: "?G" if d: "download_stage env S app ?hs ?cm ?w1 = (f, w1)"
    using download_stage_frame(1,2) [OF d] download_stage_frame(3) [OF d, of k]
      download_stage_continue(1) [of env S app ?hs ?cm ?w1 l w1] d
    by auto
  have "?G"
  proof (cases "isUrl env app")
    case False
    then show ?thesis
      using assms by (auto simp: source_stage_def split: if_splits option.splits)
  next
    case True
    note unf = source_stage_url [OF True, of S w, unfolded Let_def]
    show ?thesis
    proof (cases "getCachedApplicationPath w app ?cm")
      case None
      then show ?thesis
        using assms unf dl by simp
    next
      case (Some p)
      then obtain e where e: "cache w app = Some e" "fullPath e = p"
        using getCached_Some by blast
      show ?thesis
      proof (cases "p = []")
        case True
        then show ?thesis
          using assms unf dl Some by simp
      next
        case ne: False
        show ?thesis
        proof (cases "fs_exists env w p")
          case True
          then have "w1 = ?w1" "f = return_verified p S"
            using assms unf Some ne by simp_all
          then show ?thesis
            by (auto simp: return_verified_eq)
        next
          case False
          have del: "cache_del env app ?w1 = ?w1\<lparr>cache := (cache w)(app := None)\<rparr>"
            using cache_del_missing [of ?w1 app e env] e False
            by (simp add: fs_exists_cache_irrelevant)
          have d: "download_stage env S app ?hs ?cm (?w1\<lparr>cache := (cache w)(app := None)\<rparr>)
              = (f, w1)"
            using assms unf Some ne False del by simp
          show ?thesis
            using download_stage_frame(1,2) [OF d] download_stage_frame(3) [OF d, of k]
              download_stage_continue(1) [OF _, of env S app ?hs ?cm _ l w1] d e False
            by auto
        qed
      qed
    qed
  qed
  then show "cache w1 = cache w
         \<or> (\<exists>e. cache w app = Some e \<and> \<not> fs_exists env w (fullPath e)
                \<and> cache w1 = (cache w)(app := None))"
    and "files w k \<noteq> None \<Longrightarrow> files w1 k \<noteq> None"
    and "extractions w1 = extractions w"
    and "f = Continue l \<Longrightarrow> l_app l = app"
    by blast+
qed

lemma stale_after_source:
  assumes src: "source_stage env S app w = (Continue l, w1)"
    and uz: "cache w2 = cache w1
         \<or> (\<exists>e. cache w1 (l_app l) = Some e \<and> \<not> fs_exists env w1 (fullPath e)
                \<and> cache w2 = (cache w1)(l_app l := None))"
  shows "cache w2 = cache w
         \<or> (\<exists>e. cache w app = Some e \<and> \<not> fs_exists env w (fullPath e)
                \<and> cache w2 = (cache w)(app := None))"
proof -
  have app: "l_app l = app"
    using source_stage_frame(4) [OF src] by simp
  have mono: "\<And>p. fs_exists env w p \<Longrightarrow> fs_exists env w1 p"
    using source_stage_frame(2) [OF src] by (simp add: fs_exists_def)
  from source_stage_frame(1) [OF src] show ?thesis
  proof
    assume same: "cache w1 = cache w"
    from uz show ?thesis
    proof
      assume "cache w2 = cache w1"
      then show ?thesis using same by simp
    next
      assume "\<exists>e. cache w1 (l_app l) = Some e \<and> \<not> fs_exists env w1 (fullPath e)
                \<and> cache w2 = (cache w1)(l_app l := None)"
      then show ?thesis
        using same app mono by auto
    qed
  next
    assume del: "\<exists>e. cache w app = Some e \<and> \<not> fs_exists env w (fullPath e)
                \<and> cache w1 = (cache w)(app := None)"
    then have "cache w1 (l_app l) = None"
      using app by auto
    then have "cache w2 = cache w1"
      using uz by auto
    then show ?thesis
      using del by auto
  qed
qed

text \<open>
  C6. A call that fails never adds or changes a cache entry and never touches
  the entry of another descriptor: afterwards the cache is the one before the call, or
  the one before the call without the descriptor's own entry, and the latter only when
  that entry named an artifact that no longer existed on disk (lines 128-129 and 208-209
  purge such an entry before the call goes on and fails).
\<close>

theorem failing_call_cache:
  assumes "configureApp env a exts w = (Inl err, w')"
  shows "cache w' = cache w
         \<or> (\<exists>app e. a = Str app \<and> cache w app = Some e \<and> \<not> fs_exists env w (fullPath e)
                \<and> cache w' = (cache w)(app := None))"
proof (cases a)
  case (Str app)
  let ?S = "toExtArray exts"
  have gb: "guarded_body env ?S app w = (Inl err, w')"
    using assms Str by (auto simp: configureApp_def split: prod.splits sum.splits)
  obtain f w1 where src: "source_stage env ?S app w = (f, w1)"
    by (cases "source_stage env ?S app w")
  have "cache w' = cache w
         \<or> (\<exists>e. cache w app = Some e \<and> \<not> fs_exists env w (fullPath e)
                \<and> cache w' = (cache w)(app := None))"
  proof (cases f)
    case (Throw e)
    then have "w' = w1"
      using gb src by (simp add: guarded_body_def)
    then show ?thesis
      using source_stage_frame(1) [OF src] by simp
  next
    case (Return p)
    then show ?thesis
      using gb src by (simp add: guarded_body_def)
  next
    case (Continue l)
    obtain f2 w2 where uz: "unzip_stage env ?S l w1 = (f2, w2)"
      by (cases "unzip_stage env ?S l w1")
    have "w' = w2"
    proof (cases f2)
      case (Throw e)
      then show ?thesis
        using gb src Continue uz by (simp add: guarded_body_def)
    next
      case (Return p)
      then show ?thesis
        using gb src Continue uz by (simp add: guarded_body_def)
    next
      case c2: (Continue l2)
      then have "cache_stage env ?S l2 w2 = (Inl err, w')"
        using gb src Continue uz by (simp add: guarded_body_def)
      then show ?thesis
        using cache_stage_failure by blast
    qed
    then show ?thesis
      using stale_after_source [of env ?S app w l w1 w2] src Continue unzip_stage_frame(1) [OF uz]
      by simp
  qed
  then show ?thesis
    using Str by blast
qed (use assms in \<open>simp_all add: configureApp_def\<close>)

theorem failing_call_cache_counterexample:
  "fst (configureApp fx_offline_env (Str fx_url) (ExtArray [''.apk'']) fx_stale_world)
     = Inl (DownloadFailure fx_url (Transport ''ECONNRESET''))
   \<and> cache fx_stale_world fx_url
     = Some \<lparr>hash = None, lastModified = Some (ValidDate 9), fullPath = ''/tmp/gone/app.apk''\<rparr>
   \<and> cache (snd (configureApp fx_offline_env (Str fx_url) (ExtArray [''.apk''])
        fx_stale_world)) fx_url = None"
  by code_simp

theorem failing_call_cache_witness:
  "case configureApp fx_offline_env (Str fx_url) (ExtArray [''.apk'']) fx_stale_world of
     (r, w') \<Rightarrow>
       r = Inl (DownloadFailure fx_url (Transport ''ECONNRESET''))
       \<and> cache w' = (cache fx_stale_world)(fx_url := None)"
proof -
  obtain r w' where
    h: "configureApp fx_offline_env (Str fx_url) (ExtArray [''.apk'']) fx_stale_world = (r, w')"
    by (cases "configureApp fx_offline_env (Str fx_url) (ExtArray [''.apk'']) fx_stale_world")
  have "fst (configureApp fx_offline_env (Str fx_url) (ExtArray [''.apk'']) fx_stale_world)
      = Inl (DownloadFailure fx_url (Transport ''ECONNRESET''))"
    by code_simp
  then have r: "r = Inl (DownloadFailure fx_url (Transport ''ECONNRESET''))"
    by (simp add: h)
  have "cache (snd (configureApp fx_offline_env (Str fx_url) (ExtArray [''.apk''])
      fx_stale_world)) fx_url = None"
    by code_simp
  then have gone: "cache w' fx_url = None"
    by (simp add: h)
  have was: "cache fx_stale_world fx_url \<noteq> None"
    by code_simp
  have "cache w' \<noteq> cache fx_stale_world"
    using gone was by metis
  then have "cache w' = (cache fx_stale_world)(fx_url := None)"
    using failing_call_cache [OF h [unfolded r]] by auto
  then show ?thesis
    using r by (simp add: h)
qed

subsection \<open>A fresh cache entry is reused\<close>


lemma source_stage_continue_url:
  assumes "source_stage env S app w = (Continue l, w1)" and url: "isUrl env app"
  shows "l_app l = app"
    and "path_isAbsolute (l_newApp l)"
    and "fs_key env (l_newApp l) = l_newApp l"
    and "l_archiveHash l = None"
    and "l_currentModified l = probed_modified env app"
    and "net_log w1 = net_log w @ [HEAD app, GET (href (url_parse env app))]"
    and "\<exists>c. files w1 (l_newApp l) = Some (File c)"
proof -
  note unf = source_stage_url [OF url, of S w, unfolded Let_def]
  let ?hs = "probed_headers env app"
  let ?cm = "probed_modified env app"
  obtain wd where d: "download_stage env S app ?hs ?cm wd = (Continue l, w1)"
    and log: "net_log wd = net_log w @ [HEAD app]"
    using assms(1) unf
    by (auto simp: return_verified_eq cache_del_fields split: option.splits if_splits)
  note dc = download_stage_continue [OF d]
  show "l_app l = app" "path_isAbsolute (l_newApp l)" "fs_key env (l_newApp l) = l_newApp l"
    "l_archiveHash l = None" "l_currentModified l = probed_modified env app"
    "\<exists>c. files w1 (l_newApp l) = Some (File c)"
    using dc by simp_all
  show "net_log w1 = net_log w @ [HEAD app, GET (href (url_parse env app))]"
    using dc(6) log by simp
qed

lemma not_absolute_neq: "\<not> path_isAbsolute a \<Longrightarrow> path_isAbsolute b \<Longrightarrow> a \<noteq> b"
  by auto






subsection \<open>The digest of a downloaded archive\<close>

lemma fs_hash_of_file:
  "files w (fs_key env p) = Some (File c) \<Longrightarrow> fs_hash env w p = Inr (digest env c)"
  by (simp add: fs_hash_def)

lemma downloaded_archive_reused:
  assumes url: "isUrl env app" and rel: "\<not> path_isAbsolute app"
    and src: "source_stage env S app w = (Continue l, w1)"
    and zip: "l_shouldUnzipApp l"
    and h: "fs_hash env w1 (l_newApp l) = Inr h"
    and ent: "cache w1 app = Some e" "hash e = Some h" "fs_exists env w1 (fullPath e)"
  shows "configureApp env (Str app) (ExtArray S) w =
           (if path_extname (fullPath e) \<in> set S then Inr (Some (fullPath e))
            else Inl (UnsupportedExtension (fullPath e) S),
            fs_rimraf env (l_newApp l) w1)"
    and "files (fs_rimraf env (l_newApp l) w1) (l_newApp l) = None"
    and "extractions (fs_rimraf env (l_newApp l) w1) = extractions w"
    and "cache (fs_rimraf env (l_newApp l) w1) = cache w1"
proof -
  note sc = source_stage_continue_url [OF src url]
  have ne: "l_newApp l \<noteq> l_app l"
    using sc(1,2) rel not_absolute_neq by metis
  have "unzip_stage env S l w1 = (return_verified (fullPath e) S, fs_rimraf env (l_newApp l) w1)"
    using zip h ent ne sc(1) by (simp add: unzip_stage_def Let_def)
  then show "configureApp env (Str app) (ExtArray S) w =
           (if path_extname (fullPath e) \<in> set S then Inr (Some (fullPath e))
            else Inl (UnsupportedExtension (fullPath e) S),
            fs_rimraf env (l_newApp l) w1)"
    using src by (simp add: configureApp_def guarded_body_def return_verified_eq)
  show "files (fs_rimraf env (l_newApp l) w1) (l_newApp l) = None"
    using files_rimraf_under [of env "l_newApp l" "l_newApp l" w1] sc(3) under_refl by simp
  show "extractions (fs_rimraf env (l_newApp l) w1) = extractions w"
    using source_stage_frame(3) [OF src] by (simp add: rimraf_fields)
  show "cache (fs_rimraf env (l_newApp l) w1) = cache w1"
    by (simp add: rimraf_fields)
qed

lemma downloaded_archive_extracted:
  assumes url: "isUrl env app" and rel: "\<not> path_isAbsolute app"
    and src: "source_stage env S app w = (Continue l, w1)"
    and zip: "l_shouldUnzipApp l"
    and h: "fs_hash env w1 (l_newApp l) = Inr h"
    and miss: "\<not> (\<exists>e. cache w1 app = Some e \<and> hash e = Some h \<and> fs_exists env w1 (fullPath e))"
    and dig: "h \<noteq> [] \<or> l_currentModified l \<noteq> None"
    and ok: "configureApp env (Str app) (ExtArray S) w = (Inr (Some p), w')"
  shows "cache w' app = Some \<lparr>hash = Some h, lastModified = l_currentModified l, fullPath = p\<rparr>"
    and "extractions w' = extractions w @ [l_newApp l]"
proof -
  note sc = source_stage_continue_url [OF src url]
  have gb: "guarded_body env S app w = (Inr p, w')"
    using ok by (auto simp: configureApp_def split: prod.splits sum.splits)
  define w1' where
    "w1' = (case cache w1 app of
              None \<Rightarrow> w1
            | Some e \<Rightarrow> if hash e = Some h then cache_del env app w1 else w1)"
  have ext1: "extractions w1' = extractions w1"
    by (simp add: w1'_def cache_del_fields split: option.splits)
  have ex: "unzip_stage env S l w1 = extract_stage env S l h w1'"
    using zip h miss sc(1)
    by (simp add: unzip_stage_def Let_def w1'_def split: option.splits)
  obtain f2 w2 where es: "extract_stage env S l h w1' = (f2, w2)"
    by (cases "extract_stage env S l h w1'")
  note fr = extract_stage_frame [OF es]
  obtain l2 where c2: "f2 = Continue l2"
    using gb src ex es fr(4) by (cases f2) (auto simp: guarded_body_def)
  then have cs: "cache_stage env S l2 w2 = (Inr p, w')"
    using gb src ex es by (simp add: guarded_body_def)
  have l2: "l_app l2 = app" "path_isAbsolute (l_newApp l2)" "l_archiveHash l2 = Some h"
    "l_currentModified l2 = l_currentModified l" "extractions w2 = extractions w1' @ [l_newApp l]"
    using fr(5) [OF c2] sc(1) by simp_all
  have p: "p = l_newApp l2"
    using cache_stage_success(1) [OF cs] .
  have "l_app l2 \<noteq> l_newApp l2"
    using l2(1,2) rel not_absolute_neq by blast
  then have "cache w' = (cache w2)(l_app l2 \<mapsto>
      \<lparr>hash = l_archiveHash l2, lastModified = l_currentModified l2, fullPath = p\<rparr>)"
    using cache_stage_success(5) [OF cs] l2(3,4) dig by auto
  then show "cache w' app = Some \<lparr>hash = Some h, lastModified = l_currentModified l, fullPath = p\<rparr>"
    using l2 by simp
  show "extractions w' = extractions w @ [l_newApp l]"
    using cache_stage_success(4) [OF cs] l2(5) ext1 source_stage_frame(3) [OF src] by simp
qed

text \<open>
  C3. After the fresh download of an archive its digest is computed. If the
  cache then holds an entry for the descriptor with the same digest whose artifact exists
  on disk, the downloaded archive is deleted, nothing is extracted, the cache is left as
  it is, and the cached path is returned if its extension is in the supported set;
  otherwise the call fails with the error of \<^verbatim>\<open>verifyAppExtension\<close>. If there is no such
  entry, the archive is extracted, and a call that succeeds has extracted exactly this
  archive and leaves the cache entry of the descriptor with the new digest and the
  returned path (the digest is a non-empty string, or a modification time was probed).
\<close>

theorem downloaded_archive_digest:
  assumes url: "isUrl env app" and rel: "\<not> path_isAbsolute app"
    and src: "source_stage env S app w = (Continue l, w1)"
    and zip: "l_shouldUnzipApp l"
  shows "\<exists>h. fs_hash env w1 (l_newApp l) = Inr h
     \<and> (\<forall>e. cache w1 app = Some e \<and> hash e = Some h \<and> fs_exists env w1 (fullPath e) \<longrightarrow>
          configureApp env (Str app) (ExtArray S) w =
            (if path_extname (fullPath e) \<in> set S then Inr (Some (fullPath e))
             else Inl (UnsupportedExtension (fullPath e) S),
             fs_rimraf env (l_newApp l) w1)
          \<and> files (fs_rimraf env (l_newApp l) w1) (l_newApp l) = None
          \<and> extractions (fs_rimraf env (l_newApp l) w1) = extractions w
          \<and> cache (fs_rimraf env (l_newApp l) w1) = cache w1)
     \<and> (\<not> (\<exists>e. cache w1 app = Some e \<and> hash e = Some h \<and> fs_exists env w1 (fullPath e))
          \<and> (h \<noteq> [] \<or> l_currentModified l \<noteq> None) \<longrightarrow>
          (\<forall>p w'. configureApp env (Str app) (ExtArray S) w = (Inr (Some p), w') \<longrightarrow>
             cache w' app
               = Some \<lparr>hash = Some h, lastModified = l_currentModified l, fullPath = p\<rparr>
             \<and> extractions w' = extractions w @ [l_newApp l]))"
proof -
  note sc = source_stage_continue_url [OF src url]
  obtain c where "files w1 (fs_key env (l_newApp l)) = Some (File c)"
    using sc(3,7) by auto
  then have h: "fs_hash env w1 (l_newApp l) = Inr (digest env c)"
    by (rule fs_hash_of_file)
  have reused: "\<forall>e. cache w1 app = Some e \<and> hash e = Some (digest env c)
          \<and> fs_exists env w1 (fullPath e) \<longrightarrow>
          configureApp env (Str app) (ExtArray S) w =
            (if path_extname (fullPath e) \<in> set S then Inr (Some (fullPath e))
             else Inl (UnsupportedExtension (fullPath e) S),
             fs_rimraf env (l_newApp l) w1)
          \<and> files (fs_rimraf env (l_newApp l) w1) (l_newApp l) = None
          \<and> extractions (fs_rimraf env (l_newApp l) w1) = extractions w
          \<and> cache (fs_rimraf env (l_newApp l) w1) = cache w1"
    using downloaded_archive_reused [OF url rel src zip h] by blast
  have extracted: "\<not> (\<exists>e. cache w1 app = Some e \<and> hash e = Some (digest env c)
            \<and> fs_exists env w1 (fullPath e))
          \<and> (digest env c \<noteq> [] \<or> l_currentModified l \<noteq> None) \<longrightarrow>
          (\<forall>p w'. configureApp env (Str app) (ExtArray S) w = (Inr (Some p), w') \<longrightarrow>
             cache w' app
               = Some \<lparr>hash = Some (digest env c), lastModified = l_currentModified l,
                        fullPath = p\<rparr>
             \<and> extractions w' = extractions w @ [l_newApp l])"
    using downloaded_archive_extracted [OF url rel src zip h] by blast
  show ?thesis
    by (intro exI conjI) (rule h, rule reused, rule extracted)
qed

theorem downloaded_archive_counterexample:
  "isUrl fx_env fx_zip_url
   \<and> cache fx_dedup_world fx_zip_url
       = Some \<lparr>hash = Some ''h:zipbytes'', lastModified = None, fullPath = ''/work/app.apk''\<rparr>
   \<and> fs_exists fx_env fx_dedup_world ''/work/app.apk''
   \<and> get_request fx_env fx_zip_url = Response 200 ''OK'' ''zipbytes''
   \<and> digest fx_env ''zipbytes'' = ''h:zipbytes''
   \<and> fst (configureApp fx_env (Str fx_zip_url) (ExtArray [''.app'']) fx_dedup_world)
       = Inl (UnsupportedExtension ''/work/app.apk'' [''.app''])"
  by code_simp

theorem downloaded_archive_digest_witness:
  "case configureApp fx_env (Str fx_zip_url) (ExtArray [''.apk'']) fx_world of
     (r, w') \<Rightarrow>
       r = Inr (Some ''/tmp/dx/y.apk'')
       \<and> map_option hash (cache w' fx_zip_url) = Some (Some ''h:zipbytes'')
       \<and> map_option fullPath (cache w' fx_zip_url) = Some ''/tmp/dx/y.apk''
       \<and> extractions w' = [''/tmp/d/app.zip'']"
proof -
  let ?S = "[''.apk'']"
  obtain f w1 where src0: "source_stage fx_env ?S fx_zip_url fx_world = (f, w1)"
    by (cases "source_stage fx_env ?S fx_zip_url fx_world")
  have "case fst (source_stage fx_env ?S fx_zip_url fx_world) of
          Continue l \<Rightarrow> l_shouldUnzipApp l \<and> l_newApp l = ''/tmp/d/app.zip''
        | _ \<Rightarrow> False"
    by code_simp
  then obtain l where f: "f = Continue l" and zip: "l_shouldUnzipApp l"
    and np: "l_newApp l = ''/tmp/d/app.zip''"
    by (cases f) (simp_all add: src0)
  have src: "source_stage fx_env ?S fx_zip_url fx_world = (Continue l, w1)"
    using src0 f by simp
  have url: "isUrl fx_env fx_zip_url" and rel: "\<not> path_isAbsolute fx_zip_url"
    by code_simp+
  have "cache (snd (source_stage fx_env ?S fx_zip_url fx_world)) fx_zip_url = None"
    by code_simp
  then have miss: "cache w1 fx_zip_url = None"
    by (simp add: src0)
  have "fs_hash fx_env (snd (source_stage fx_env ?S fx_zip_url fx_world)) ''/tmp/d/app.zip''
      = Inr ''h:zipbytes''"
    by code_simp
  then have hv: "fs_hash fx_env w1 (l_newApp l) = Inr ''h:zipbytes''"
    by (simp add: src0 np)
  obtain r w' where ok: "configureApp fx_env (Str fx_zip_url) (ExtArray ?S) fx_world = (r, w')"
    by (cases "configureApp fx_env (Str fx_zip_url) (ExtArray ?S) fx_world")
  have "fst (configureApp fx_env (Str fx_zip_url) (ExtArray ?S) fx_world)
      = Inr (Some ''/tmp/dx/y.apk'')"
    by code_simp
  then have r: "r = Inr (Some ''/tmp/dx/y.apk'')"
    by (simp add: ok)
  have ext0: "extractions fx_world = []"
    by code_simp
  have "cache w' fx_zip_url
          = Some \<lparr>hash = Some ''h:zipbytes'', lastModified = l_currentModified l,
                   fullPath = ''/tmp/dx/y.apk''\<rparr>
        \<and> extractions w' = extractions fx_world @ [l_newApp l]"
    using downloaded_archive_digest [OF url rel src zip] hv miss ok [unfolded r]
    by auto
  then show ?thesis
    using r np ext0 by (simp add: ok)
qed

subsection \<open>Calls that share a descriptor, one after the other\<close>








end
